theory Spec2Isabelle
  imports Main
begin

section \<open>Strings, sets and errors\<close>

text \<open>
  The repository holds three versions of the Mr. Plotter account tool:
  \<^item> \<open>main.go\<close>: the first REPL (commands \<open>adduser\<close>, \<open>addtags\<close>, \<open>rmtags\<close>, ...);
    its functions are prefixed \<open>legacy_\<close> here;
  \<^item> the second REPL (package \<open>main\<close>, commands \<open>grant\<close>, \<open>revoke\<close>, \<open>deftag\<close>, ...);
    its functions are prefixed \<open>repl_\<close>;
  \<^item> the admin-console module (package \<open>cli\<close>); its functions are prefixed \<open>cli_\<close>.
\<close>

definition nl :: string where
  "nl = [CHR 0x0A]"

definition dq :: string where
  "dq = [CHR 0x22]"

text \<open>\<open>strings.HasPrefix\<close> and \<open>strings.Join\<close>.\<close>

definition HasPrefix :: "string \<Rightarrow> string \<Rightarrow> bool" where
  "HasPrefix s pfx = (take (length pfx) s = pfx)"

fun Join :: "string list \<Rightarrow> string \<Rightarrow> string" where
  "Join [] sep = []"
| "Join [x] sep = x"
| "Join (x # y # ys) sep = x @ sep @ Join (y # ys) sep"

text \<open>
  A Go \<open>map[string]struct{}\<close> is represented by the list of its keys. The order of the
  list is the order in which a \<open>range\<close> over the map visits the keys (Go leaves that order
  open, so a statement about every list is a statement about every order). A key that
  occurs twice in the list counts once. A nil map is \<open>None\<close>: reading it finds nothing,
  its length is 0, deleting from it does nothing, a \<open>range\<close> over it visits nothing, and
  writing to it panics (the commands that write are modelled with that branch).
\<close>

type_synonym strset = "string list"

definition set_put :: "string \<Rightarrow> strset \<Rightarrow> strset" where
  "set_put k s = (if k \<in> set s then s else s @ [k])"

definition map_has :: "string \<Rightarrow> strset option \<Rightarrow> bool" where
  "map_has k m = (case m of None \<Rightarrow> False | Some s \<Rightarrow> k \<in> set s)"

definition map_delete :: "string \<Rightarrow> strset option \<Rightarrow> strset option" where
  "map_delete k m = (case m of None \<Rightarrow> None | Some s \<Rightarrow> Some (removeAll k s))"

definition map_len :: "strset option \<Rightarrow> nat" where
  "map_len m = (case m of None \<Rightarrow> 0 | Some s \<Rightarrow> length (remdups s))"

definition map_range :: "strset option \<Rightarrow> string list" where
  "map_range m = (case m of None \<Rightarrow> [] | Some s \<Rightarrow> remdups s)"

text \<open>\<open>sliceToSet\<close> (\<open>tagSliceToSet\<close> in \<open>main.go\<close>) and \<open>setToSlice\<close>.\<close>

definition sliceToSet :: "string list \<Rightarrow> strset" where
  "sliceToSet tagSlice = foldl (\<lambda>tagSet tag. set_put tag tagSet) [] tagSlice"

definition setToSlice :: "strset option \<Rightarrow> string list" where
  "setToSlice tagSet = map_range tagSet"

text \<open>
  A Go \<open>error\<close>. \<open>ErrorString\<close> is an error made in this repository by \<open>errors.New\<close> or
  \<open>fmt.Errorf\<close>; the other two come back from the \<open>accounts\<close> package.
\<close>

datatype error = NotFound | StoreUnavailable | ErrorString string

text \<open>
  Modelled from the spec: the text of the errors of the \<open>accounts\<close> package, which is
  not part of this repository (section 7 names the kinds \<open>NotFound\<close> and
  \<open>StoreUnavailable\<close>).
\<close>

fun error_text :: "error \<Rightarrow> string" where
  "error_text NotFound = ''NotFound''"
| "error_text StoreUnavailable = ''StoreUnavailable''"
| "error_text (ErrorString s) = s"

definition errorTxFail :: error where
  "errorTxFail = ErrorString ''Transacation for atomic update failed; try again''"

definition errorAlreadyExists :: error where
  "errorAlreadyExists = ErrorString ''Already exists''"

definition txFail :: string where
  "txFail = ''Transacation for atomic update failed; try again''"

definition ALL_TAG_SYMBOL :: string where
  "ALL_TAG_SYMBOL = ''<ALL STREAMS>''"

definition AllTagSymbol :: string where
  "AllTagSymbol = ''<ALL STREAMS>''"

section \<open>The accounts package\<close>

text \<open>
  Modelled from the spec: the constants \<open>accounts.PUBLIC_TAG\<close> and \<open>accounts.ALL_TAG\<close>
  of the \<open>accounts\<close> package (the reserved tags \<open>public\<close> and \<open>all\<close> of section 3;
  \<open>main.go\<close> writes the literal \<open>"public"\<close>).
\<close>

definition PUBLIC_TAG :: string where
  "PUBLIC_TAG = ''public''"

definition ALL_TAG :: string where
  "ALL_TAG = ''all''"

text \<open>
  Modelled from the spec: the credential of an account is opaque to this repository
  (\<open>acc.SetPassword\<close> derives it from the plaintext).
\<close>

datatype credential = Unset | Derived string

text \<open>
  \<open>accounts.MrPlotterAccount\<close> and \<open>accounts.MrPlotterTagDef\<close>. \<open>Username\<close>, \<open>Tags\<close>,
  \<open>Tag\<close> and \<open>PathPrefix\<close> are the fields this repository reads and writes. Modelled
  from the spec: the version token of section 4.2 (\<open>accRevision\<close>, \<open>tagRevision\<close>: 0 for a
  record that was built here and never read from the store).
\<close>

record MrPlotterAccount =
  Username :: string
  Tags :: "strset option"
  PasswordHash :: credential
  accRevision :: nat

record MrPlotterTagDef =
  Tag :: string
  PathPrefix :: "strset option"
  tagRevision :: nat

definition SetPassword :: "string \<Rightarrow> MrPlotterAccount \<Rightarrow> MrPlotterAccount" where
  "SetPassword password acc = acc\<lparr>PasswordHash := Derived password\<rparr>"

text \<open>The calls this repository makes into the \<open>accounts\<close> package.\<close>

datatype call =
    CallRetrieveAccount string
  | CallUpsertAccount MrPlotterAccount
  | CallDeleteAccount string
  | CallDeleteMultipleAccounts string
  | CallRetrieveMultipleAccounts string
  | CallRetrieveTagDef string
  | CallUpsertTagDef MrPlotterTagDef
  | CallDeleteTagDef string
  | CallDeleteMultipleTagDefs string
  | CallRetrieveMultipleTagDefs string

text \<open>
  The world a command runs in: the configuration store (the stored accounts and tag
  definitions, each with the revision it was last written at, and the store's revision
  counter), the calls that fail in transport (\<open>faults\<close>), the log of the calls made so
  far, and what has been printed.
\<close>

record world =
  accts :: "MrPlotterAccount list"
  tagdefs :: "MrPlotterTagDef list"
  revision :: nat
  faults :: "call \<Rightarrow> error option"
  calls :: "call list"
  printed :: "string list"

definition logged :: "call \<Rightarrow> world \<Rightarrow> world" where
  "logged c w = w\<lparr>calls := calls w @ [c]\<rparr>"

definition lookup_account :: "string \<Rightarrow> MrPlotterAccount list \<Rightarrow> MrPlotterAccount option" where
  "lookup_account username as = find (\<lambda>a. Username a = username) as"

fun put_account :: "MrPlotterAccount \<Rightarrow> MrPlotterAccount list \<Rightarrow> MrPlotterAccount list" where
  "put_account acc [] = [acc]"
| "put_account acc (a # as) =
     (if Username a = Username acc then acc # as else a # put_account acc as)"

definition lookup_tagdef :: "string \<Rightarrow> MrPlotterTagDef list \<Rightarrow> MrPlotterTagDef option" where
  "lookup_tagdef tag ds = find (\<lambda>d. Tag d = tag) ds"

fun put_tagdef :: "MrPlotterTagDef \<Rightarrow> MrPlotterTagDef list \<Rightarrow> MrPlotterTagDef list" where
  "put_tagdef tagdef [] = [tagdef]"
| "put_tagdef tagdef (d # ds) =
     (if Tag d = Tag tagdef then tagdef # ds else d # put_tagdef tagdef ds)"

text \<open>
  Modelled from the spec: the operations of the \<open>accounts\<close> package, which is not part
  of this repository, after the store interface of section 6 and the conditional write
  of section 4.2. A read returns the stored record or \<open>NotFound\<close>. An upsert stores the
  record only if the revision the record carries is the stored one (0: no record
  stored) and returns whether it did. A delete removes what is there and is no error
  when nothing is. Every call is logged, and a call listed in \<open>faults\<close> fails with that
  error and leaves the store as it is.
\<close>

definition RetrieveAccount :: "string \<Rightarrow> world \<Rightarrow> (error + MrPlotterAccount) \<times> world" where
  "RetrieveAccount username w =
     (let w' = logged (CallRetrieveAccount username) w in
      case faults w (CallRetrieveAccount username) of
        Some e \<Rightarrow> (Inl e, w')
      | None \<Rightarrow>
          (case lookup_account username (accts w) of
             None \<Rightarrow> (Inl NotFound, w')
           | Some acc \<Rightarrow> (Inr acc, w')))"

definition UpsertAccountAtomically :: "MrPlotterAccount \<Rightarrow> world \<Rightarrow> (bool \<times> error option) \<times> world" where
  "UpsertAccountAtomically acc w =
     (let w' = logged (CallUpsertAccount acc) w in
      case faults w (CallUpsertAccount acc) of
        Some e \<Rightarrow> ((False, Some e), w')
      | None \<Rightarrow>
          (let stored = (case lookup_account (Username acc) (accts w) of
                           None \<Rightarrow> 0 | Some a \<Rightarrow> accRevision a) in
           if stored = accRevision acc
           then ((True, None),
                 w'\<lparr>accts := put_account (acc\<lparr>accRevision := revision w + 1\<rparr>) (accts w),
                    revision := revision w + 1\<rparr>)
           else ((False, None), w')))"

definition DeleteAccount :: "string \<Rightarrow> world \<Rightarrow> error option \<times> world" where
  "DeleteAccount username w =
     (let w' = logged (CallDeleteAccount username) w in
      case faults w (CallDeleteAccount username) of
        Some e \<Rightarrow> (Some e, w')
      | None \<Rightarrow>
          (None, w'\<lparr>accts := filter (\<lambda>a. Username a \<noteq> username) (accts w),
                     revision := revision w + 1\<rparr>))"

definition DeleteMultipleAccounts :: "string \<Rightarrow> world \<Rightarrow> (nat \<times> error option) \<times> world" where
  "DeleteMultipleAccounts pfx w =
     (let w' = logged (CallDeleteMultipleAccounts pfx) w in
      case faults w (CallDeleteMultipleAccounts pfx) of
        Some e \<Rightarrow> ((0, Some e), w')
      | None \<Rightarrow>
          ((length (filter (\<lambda>a. HasPrefix (Username a) pfx) (accts w)), None),
           w'\<lparr>accts := filter (\<lambda>a. \<not> HasPrefix (Username a) pfx) (accts w),
              revision := revision w + 1\<rparr>))"

definition RetrieveMultipleAccounts :: "string \<Rightarrow> world \<Rightarrow> (error + MrPlotterAccount list) \<times> world" where
  "RetrieveMultipleAccounts pfx w =
     (let w' = logged (CallRetrieveMultipleAccounts pfx) w in
      case faults w (CallRetrieveMultipleAccounts pfx) of
        Some e \<Rightarrow> (Inl e, w')
      | None \<Rightarrow> (Inr (filter (\<lambda>a. HasPrefix (Username a) pfx) (accts w)), w'))"

definition RetrieveTagDef :: "string \<Rightarrow> world \<Rightarrow> (error + MrPlotterTagDef) \<times> world" where
  "RetrieveTagDef tag w =
     (let w' = logged (CallRetrieveTagDef tag) w in
      case faults w (CallRetrieveTagDef tag) of
        Some e \<Rightarrow> (Inl e, w')
      | None \<Rightarrow>
          (case lookup_tagdef tag (tagdefs w) of
             None \<Rightarrow> (Inl NotFound, w')
           | Some tagdef \<Rightarrow> (Inr tagdef, w')))"

definition UpsertTagDefAtomically :: "MrPlotterTagDef \<Rightarrow> world \<Rightarrow> (bool \<times> error option) \<times> world" where
  "UpsertTagDefAtomically tagdef w =
     (let w' = logged (CallUpsertTagDef tagdef) w in
      case faults w (CallUpsertTagDef tagdef) of
        Some e \<Rightarrow> ((False, Some e), w')
      | None \<Rightarrow>
          (let stored = (case lookup_tagdef (Tag tagdef) (tagdefs w) of
                           None \<Rightarrow> 0 | Some d \<Rightarrow> tagRevision d) in
           if stored = tagRevision tagdef
           then ((True, None),
                 w'\<lparr>tagdefs := put_tagdef (tagdef\<lparr>tagRevision := revision w + 1\<rparr>) (tagdefs w),
                    revision := revision w + 1\<rparr>)
           else ((False, None), w')))"

definition DeleteTagDef :: "string \<Rightarrow> world \<Rightarrow> error option \<times> world" where
  "DeleteTagDef tag w =
     (let w' = logged (CallDeleteTagDef tag) w in
      case faults w (CallDeleteTagDef tag) of
        Some e \<Rightarrow> (Some e, w')
      | None \<Rightarrow>
          (None, w'\<lparr>tagdefs := filter (\<lambda>d. Tag d \<noteq> tag) (tagdefs w),
                     revision := revision w + 1\<rparr>))"

section \<open>Output\<close>

text \<open>
  \<open>fmt.Print\<close>/\<open>fmt.Printf\<close> write their text to the standard output, \<open>fmt.Println\<close> adds
  a newline.
\<close>

definition Print :: "string \<Rightarrow> world \<Rightarrow> world" where
  "Print s w = w\<lparr>printed := printed w @ [s]\<rparr>"

definition Println :: "string \<Rightarrow> world \<Rightarrow> world" where
  "Println s w = Print (s @ nl) w"

text \<open>
  An \<open>io.Writer\<close> handed to the \<open>cli\<close> package: the nil interface value, or a writer
  (whose text is collected in the field \<open>printed\<close> of the world).
\<close>

datatype writer = NilWriter | Writer

text \<open>
  \<open>writeString\<close>, \<open>writeStringf\<close> and \<open>writeError\<close>, the helpers of the \<open>cli\<close> package.
  \<open>writeString\<close> calls \<open>fmt.Fprintln(output, message)\<close>, which calls \<open>output.Write\<close>: on
  the nil writer that is a panic of the Go runtime (\<open>None\<close> here), on a writer the message
  and a newline are written. The formatted text is passed to \<open>writeStringf\<close> already
  built. \<open>writeError\<close> writes nothing for a nil error.
\<close>

definition writeString :: "writer \<Rightarrow> string \<Rightarrow> world \<Rightarrow> world option" where
  "writeString output message w =
     (case output of NilWriter \<Rightarrow> None | Writer \<Rightarrow> Some (Println message w))"

definition writeStringf :: "writer \<Rightarrow> string \<Rightarrow> world \<Rightarrow> world option" where
  "writeStringf output message w = writeString output message w"

definition writeError :: "writer \<Rightarrow> error option \<Rightarrow> world \<Rightarrow> (bool \<times> world) option" where
  "writeError output err w =
     (case err of
        None \<Rightarrow> Some (False, w)
      | Some e \<Rightarrow>
          (case writeString output (error_text e) w of
             None \<Rightarrow> None
           | Some w' \<Rightarrow> Some (True, w')))"

text \<open>
  What a command of the two REPLs returns: \<open>nil\<close>, an error, or a panic of the Go
  runtime (a write to a nil map).
\<close>

datatype outcome = Ok | Failed error | Panicked

definition returned :: "error option \<Rightarrow> outcome" where
  "returned err = (case err of None \<Rightarrow> Ok | Some e \<Rightarrow> Failed e)"

text \<open>
  What an \<open>exec\<close> of the \<open>cli\<close> package does: it returns \<open>argsOK\<close>, or it panics. \<open>written\<close>
  is the end of an \<open>exec\<close> whose last statement before \<open>return\<close> is a write: the panic
  of the write in the world \<open>w\<close> it was made in, or \<open>argsOK = true\<close> after it.
\<close>

datatype cli_outcome = ArgsOK bool | CliPanicked

definition written :: "world option \<Rightarrow> world \<Rightarrow> cli_outcome \<times> world" where
  "written r w = (case r of None \<Rightarrow> (CliPanicked, w) | Some w' \<Rightarrow> (ArgsOK True, w'))"

definition sq :: string where
  "sq = [CHR 0x27]"

text \<open>The verb \<open>%v\<close> on a count.\<close>

fun string_of_nat :: "nat \<Rightarrow> string" where
  "string_of_nat n =
     (if n < 10 then [char_of (n + 48)]
      else string_of_nat (n div 10) @ [char_of (n mod 10 + 48)])"

section \<open>Loops shared by the three command tables\<close>

text \<open>
  The loop of \<open>grant\<close> (\<open>addtags\<close> in \<open>main.go\<close>) over \<open>tokens[2:]\<close>, on a map that is not
  nil: a tag that is not in the map is written to it.
\<close>

definition grant_loop :: "string list \<Rightarrow> strset \<Rightarrow> strset" where
  "grant_loop tags s = foldl (\<lambda>m tag. if \<not> tag \<in> set m then set_put tag m else m) s tags"

text \<open>
  The loop of \<open>revoke\<close> in the second REPL and in the \<open>cli\<close> package: it returns from the
  command at the tag \<open>public\<close> (\<open>None\<close> here) and deletes every other tag that is in the
  map.
\<close>

fun revoke_loop :: "string list \<Rightarrow> strset option \<Rightarrow> strset option option" where
  "revoke_loop [] m = Some m"
| "revoke_loop (tag # rest) m =
     (if tag = PUBLIC_TAG then None
      else revoke_loop rest (if map_has tag m then map_delete tag m else m))"

text \<open>The loop of \<open>rmtags\<close> in \<open>main.go\<close>: it skips the tag \<open>public\<close>.\<close>

fun rmtags_loop :: "string list \<Rightarrow> strset option \<Rightarrow> strset option" where
  "rmtags_loop [] m = m"
| "rmtags_loop (tag # rest) m =
     (if tag = ''public'' then rmtags_loop rest m
      else rmtags_loop rest (if map_has tag m then map_delete tag m else m))"

text \<open>
  The loop of \<open>rmprefix\<close>: it returns from the command (\<open>None\<close> here) when the prefix to
  delete is the only one left.
\<close>

fun rmprefix_loop :: "string list \<Rightarrow> strset option \<Rightarrow> strset option option" where
  "rmprefix_loop [] m = Some m"
| "rmprefix_loop (pfx # rest) m =
     (if map_has pfx m
      then (if map_len m = 1 then None else rmprefix_loop rest (map_delete pfx m))
      else rmprefix_loop rest m)"

text \<open>
  The loop of \<open>ls\<close> over the tags of one account, in the order \<open>tags\<close> in which the
  \<open>range\<close> visits them. \<open>tagcache\<close> is read and never written, as in both sources. The
  loop ends at the tag \<open>all\<close> with the symbol alone (\<open>ALL_TAG_SYMBOL\<close> in the second REPL,
  \<open>AllTagSymbol\<close> in the \<open>cli\<close> package: the same text); a lookup that fails ends the
  command (\<open>Inl\<close>, with the tag and the error). The set \<open>prefixes\<close> is kept in the order
  in which its elements were written.
\<close>

fun ls_tags :: "(string \<times> strset option) list \<Rightarrow> string list \<Rightarrow> strset \<Rightarrow> world
                \<Rightarrow> ((string \<times> error) + strset) \<times> world" where
  "ls_tags tagcache [] prefixes w = (Inr prefixes, w)"
| "ls_tags tagcache (tag # rest) prefixes w =
     (if tag = ALL_TAG then (Inr [ALL_TAG_SYMBOL], w)
      else
        (case map_of tagcache tag of
           Some tagPfxSet \<Rightarrow>
             ls_tags tagcache rest
               (foldl (\<lambda>p pfx. set_put pfx p) prefixes (map_range tagPfxSet)) w
         | None \<Rightarrow>
             (case RetrieveTagDef tag w of
                (Inl err, w') \<Rightarrow> (Inl (tag, err), w')
              | (Inr tagdef, w') \<Rightarrow>
                  ls_tags tagcache rest
                    (foldl (\<lambda>p pfx. set_put pfx p) prefixes (map_range (PathPrefix tagdef))) w')))"

section \<open>The second REPL\<close>

definition repl_adduser :: "string list \<Rightarrow> world \<Rightarrow> outcome \<times> world" where
  "repl_adduser tokens w =
     (if length tokens < 3 then
        (Ok, Println ''Usage: adduser username password [tag1] [tag2] ...''
               (Println ''adduser - creates a new user account'' w))
      else
        (let tagSet = sliceToSet (drop 3 tokens);
             tagSet = set_put PUBLIC_TAG tagSet;
             acc = \<lparr>Username = tokens ! 1, Tags = Some tagSet, PasswordHash = Unset, accRevision = 0\<rparr>;
             acc = SetPassword (tokens ! 2) acc;
             ((success, err), w) = UpsertAccountAtomically acc w
         in if \<not> success then (Failed errorAlreadyExists, w) else (returned err, w)))"

definition repl_setpassword :: "string list \<Rightarrow> world \<Rightarrow> outcome \<times> world" where
  "repl_setpassword tokens w =
     (if length tokens \<noteq> 3 then
        (Ok, Println ''Usage: setpassword username password''
               (Println (''setpassword - sets a user'' @ sq @ ''s password'') w))
      else
        (case RetrieveAccount (tokens ! 1) w of
           (Inl err, w) \<Rightarrow> (Failed err, w)
         | (Inr acc, w) \<Rightarrow>
             (let acc = SetPassword (tokens ! 2) acc;
                  ((success, err), w) = UpsertAccountAtomically acc w
              in if \<not> success then (Failed errorTxFail, w) else (returned err, w))))"

fun repl_rmuser_loop :: "string list \<Rightarrow> world \<Rightarrow> outcome \<times> world" where
  "repl_rmuser_loop [] w = (Ok, w)"
| "repl_rmuser_loop (username # rest) w =
     (case DeleteAccount username w of
        (Some err, w') \<Rightarrow> (Failed err, w')
      | (None, w') \<Rightarrow> repl_rmuser_loop rest w')"

definition repl_rmuser :: "string list \<Rightarrow> world \<Rightarrow> outcome \<times> world" where
  "repl_rmuser tokens w =
     (if length tokens < 2 then
        (Ok, Println ''Usage: rmuser username1 [username2] [username3] ...''
               (Println ''rmuser - deletes user accounts'' w))
      else repl_rmuser_loop (drop 1 tokens) w)"

definition repl_rmusers :: "string list \<Rightarrow> world \<Rightarrow> outcome \<times> world" where
  "repl_rmusers tokens w =
     (if length tokens \<noteq> 2 then
        (Ok, Println ''Usage: rmusers usernameprefix''
               (Println ''rmusers - deletes all user accounts whose username begins with a certain prefix'' w))
      else
        (let ((n, err), w) = DeleteMultipleAccounts (tokens ! 1) w;
             w = (if n = 1 then Println ''Deleted 1 account'' w
                  else Print (''Deleted '' @ string_of_nat n @ '' accounts'' @ nl) w)
         in (returned err, w)))"

definition repl_grant :: "string list \<Rightarrow> world \<Rightarrow> outcome \<times> world" where
  "repl_grant tokens w =
     (if length tokens < 3 then
        (Ok, Println ''Usage: grant username tag1 [tag2] [tag3] ...''
               (Println ''grant - grants a user permission to view streams with one or more tags'' w))
      else
        (case RetrieveAccount (tokens ! 1) w of
           (Inl err, w) \<Rightarrow> (Failed err, w)
         | (Inr acc, w) \<Rightarrow>
             (case Tags acc of
                None \<Rightarrow> (Panicked, w)
              | Some s \<Rightarrow>
                  (let acc = acc\<lparr>Tags := Some (grant_loop (drop 2 tokens) s)\<rparr>;
                       ((success, err), w) = UpsertAccountAtomically acc w
                   in if \<not> success then (Failed errorTxFail, w) else (returned err, w)))))"

definition repl_revoke :: "string list \<Rightarrow> world \<Rightarrow> outcome \<times> world" where
  "repl_revoke tokens w =
     (if length tokens < 3 then
        (Ok, Println ''Usage: revoke username tag1 [tag2] [tag3] ...''
               (Println (''revoke - revokes tags from a user'' @ sq @ ''s permission list'') w))
      else
        (case RetrieveAccount (tokens ! 1) w of
           (Inl err, w) \<Rightarrow> (Failed err, w)
         | (Inr acc, w) \<Rightarrow>
             (case revoke_loop (drop 2 tokens) (Tags acc) of
                None \<Rightarrow>
                  (Failed (ErrorString (''All user accounts are assigned the '' @ dq @ PUBLIC_TAG @ dq
                                          @ '' tag'' @ nl)), w)
              | Some tags \<Rightarrow>
                  (let acc = acc\<lparr>Tags := tags\<rparr>;
                       ((success, err), w) = UpsertAccountAtomically acc w
                   in if \<not> success then (Failed errorTxFail, w) else (returned err, w)))))"

definition repl_lsusers :: "string list \<Rightarrow> world \<Rightarrow> outcome \<times> world" where
  "repl_lsusers tokens w =
     (if length tokens \<noteq> 1 \<and> length tokens \<noteq> 2 then
        (Ok, Println ''Usage: lsusers [prefix]''
               (Println ''lsusers - shows the tags granted to all user accounts whose names begin with a given prefix'' w))
      else
        (let prefix = (if length tokens = 2 then tokens ! 1 else []) in
         case RetrieveMultipleAccounts prefix w of
           (Inl err, w) \<Rightarrow> (Failed err, w)
         | (Inr accs, w) \<Rightarrow>
             (Ok, foldl (\<lambda>w acc.
                     if Tags acc = None then Print (Username acc @ '' [CORRUPT ENTRY]'' @ nl) w
                     else Print (Username acc @ '': '' @ Join (setToSlice (Tags acc)) '' '' @ nl) w)
                   w accs)))"

fun repl_undeftag_loop :: "string list \<Rightarrow> world \<Rightarrow> outcome \<times> world" where
  "repl_undeftag_loop [] w = (Ok, w)"
| "repl_undeftag_loop (tagname # rest) w =
     (let w = (if tagname = ALL_TAG
               then Print (''Tag '' @ dq @ ALL_TAG @ dq @ '' cannot be deleted'' @ nl) w
               else w)
      in case DeleteTagDef tagname w of
           (Some err, w') \<Rightarrow> (Failed err, w')
         | (None, w') \<Rightarrow> repl_undeftag_loop rest w')"

definition repl_undeftag :: "string list \<Rightarrow> world \<Rightarrow> outcome \<times> world" where
  "repl_undeftag tokens w =
     (if length tokens < 2 then
        (Ok, Println ''Usage: undeftag username''
               (Println ''undeftag - deletes tag definitions'' w))
      else repl_undeftag_loop (drop 1 tokens) w)"

definition repl_rmprefix :: "string list \<Rightarrow> world \<Rightarrow> outcome \<times> world" where
  "repl_rmprefix tokens w =
     (if length tokens < 3 then
        (Ok, Println ''Usage: rmprefix tag prefix1 [prefix2] [prefix3] ...''
               (Println ''rmprefix - removes a path prefix from a tag definition'' w))
      else if tokens ! 1 = ALL_TAG then
        (Failed (ErrorString (''Cannot modify definition of '' @ dq @ ALL_TAG @ dq @ '' tag'' @ nl)), w)
      else
        (case RetrieveTagDef (tokens ! 1) w of
           (Inl err, w) \<Rightarrow> (Failed err, w)
         | (Inr tagdef, w) \<Rightarrow>
             (case rmprefix_loop (drop 2 tokens) (PathPrefix tagdef) of
                None \<Rightarrow>
                  (Failed (ErrorString ''Each tag must be assigned at least one prefix (use undeftag or undeftags to fully remove a tag)''), w)
              | Some pfxSet \<Rightarrow>
                  (let tagdef = tagdef\<lparr>PathPrefix := pfxSet\<rparr>;
                       ((success, err), w) = UpsertTagDefAtomically tagdef w
                   in if \<not> success then (Failed errorTxFail, w) else (returned err, w)))))"

fun repl_showtagdef_loop :: "string list \<Rightarrow> string list \<Rightarrow> world \<Rightarrow> outcome \<times> world" where
  "repl_showtagdef_loop tokens [] w = (Ok, w)"
| "repl_showtagdef_loop tokens (tagname # rest) w =
     (if tokens ! 1 = ALL_TAG then (Ok, Print (ALL_TAG @ '': '' @ ALL_TAG_SYMBOL @ nl) w)
      else
        (case RetrieveTagDef tagname w of
           (Inl err, w') \<Rightarrow> (Failed err, w')
         | (Inr tagdef, w') \<Rightarrow>
             repl_showtagdef_loop tokens rest
               (Print (tagname @ '': '' @ Join (setToSlice (PathPrefix tagdef)) '' '' @ nl) w')))"

definition repl_showtagdef :: "string list \<Rightarrow> world \<Rightarrow> outcome \<times> world" where
  "repl_showtagdef tokens w =
     (if length tokens < 2 then
        (Ok, Println ''Usage: showtagdef tag1 [tag2] [tag3] ...''
               (Println ''showtagdef - lists the prefixes assigned to a tag'' w))
      else repl_showtagdef_loop tokens (drop 1 tokens) w)"

text \<open>
  The loop of \<open>ls\<close> over the accounts. The tag cache is made anew for every account
  that is not corrupt.
\<close>

fun repl_ls_loop :: "MrPlotterAccount list \<Rightarrow> world \<Rightarrow> outcome \<times> world" where
  "repl_ls_loop [] w = (Ok, w)"
| "repl_ls_loop (acc # accs) w =
     (if Tags acc = None then
        repl_ls_loop accs (Print (Username acc @ '' [CORRUPT ENTRY]'' @ nl) w)
      else
        (let tagcache = [] in
         case ls_tags tagcache (map_range (Tags acc)) [] w of
           (Inl (tag, err), w') \<Rightarrow>
             (Failed (ErrorString (''Could not retrieve tag information for '' @ sq @ tag @ sq
                                     @ '': '' @ error_text err @ nl)), w')
         | (Inr prefixes, w') \<Rightarrow>
             repl_ls_loop accs
               (Print (Username acc @ '': '' @ Join (setToSlice (Some prefixes)) '' '' @ nl) w')))"

definition repl_ls :: "string list \<Rightarrow> world \<Rightarrow> outcome \<times> world" where
  "repl_ls tokens w =
     (if length tokens \<noteq> 1 \<and> length tokens \<noteq> 2 then
        (Ok, Println ''Usage: ls [prefix]''
               (Println ''ls - lists the path prefixes viewable by each user in the current configuration'' w))
      else
        (let prefix = (if length tokens = 2 then tokens ! 1 else []) in
         case RetrieveMultipleAccounts prefix w of
           (Inl err, w) \<Rightarrow> (Failed err, w)
         | (Inr accs, w) \<Rightarrow> repl_ls_loop accs w))"

section \<open>The first REPL (main.go)\<close>

definition legacy_adduser :: "string list \<Rightarrow> world \<Rightarrow> outcome \<times> world" where
  "legacy_adduser tokens w =
     (if length tokens < 3 then
        (Ok, Println ''Usage: adduser username password [tag1] [tag2] ...'' w)
      else
        (let tagSet = sliceToSet (drop 3 tokens);
             tagSet = set_put ''public'' tagSet;
             acc = \<lparr>Username = tokens ! 1, Tags = Some tagSet, PasswordHash = Unset, accRevision = 0\<rparr>;
             acc = SetPassword (tokens ! 2) acc;
             ((success, err), w) = UpsertAccountAtomically acc w
         in if \<not> success then (Failed errorTxFail, w) else (returned err, w)))"

definition legacy_setpassword :: "string list \<Rightarrow> world \<Rightarrow> outcome \<times> world" where
  "legacy_setpassword tokens w =
     (if length tokens \<noteq> 3 then
        (Ok, Println ''Usage: setpassword username password'' w)
      else
        (case RetrieveAccount (tokens ! 1) w of
           (Inl err, w) \<Rightarrow> (Failed err, w)
         | (Inr acc, w) \<Rightarrow>
             (let acc = SetPassword (tokens ! 2) acc;
                  ((success, err), w) = UpsertAccountAtomically acc w
              in if \<not> success then (Failed errorTxFail, w) else (returned err, w))))"

definition legacy_rmuser :: "string list \<Rightarrow> world \<Rightarrow> outcome \<times> world" where
  "legacy_rmuser tokens w =
     (if length tokens \<noteq> 2 then (Ok, Println ''Usage: rmuser username'' w)
      else (let (err, w) = DeleteAccount (tokens ! 1) w in (returned err, w)))"

definition legacy_rmusers :: "string list \<Rightarrow> world \<Rightarrow> outcome \<times> world" where
  "legacy_rmusers tokens w =
     (if length tokens \<noteq> 2 then (Ok, Println ''Usage: rmusers prefix'' w)
      else
        (let ((n, err), w) = DeleteMultipleAccounts (tokens ! 1) w;
             w = (if n = 1 then Println ''Deleted 1 account'' w
                  else Print (''Deleted '' @ string_of_nat n @ '' accounts'' @ nl) w)
         in (returned err, w)))"

definition legacy_addtags :: "string list \<Rightarrow> world \<Rightarrow> outcome \<times> world" where
  "legacy_addtags tokens w =
     (if length tokens < 3 then
        (Ok, Println ''Usage: addtags username tag1 [tag2] [tag3] ...'' w)
      else
        (case RetrieveAccount (tokens ! 1) w of
           (Inl err, w) \<Rightarrow> (Failed err, w)
         | (Inr acc, w) \<Rightarrow>
             (case Tags acc of
                None \<Rightarrow> (Panicked, w)
              | Some s \<Rightarrow>
                  (let acc = acc\<lparr>Tags := Some (grant_loop (drop 2 tokens) s)\<rparr>;
                       ((success, err), w) = UpsertAccountAtomically acc w
                   in if \<not> success then (Failed errorTxFail, w) else (returned err, w)))))"

definition legacy_rmtags :: "string list \<Rightarrow> world \<Rightarrow> outcome \<times> world" where
  "legacy_rmtags tokens w =
     (if length tokens < 3 then
        (Ok, Println ''Usage: rmtags username tag1 [tag2] [tag3] ...'' w)
      else
        (case RetrieveAccount (tokens ! 1) w of
           (Inl err, w) \<Rightarrow> (Failed err, w)
         | (Inr acc, w) \<Rightarrow>
             (let acc = acc\<lparr>Tags := rmtags_loop (drop 2 tokens) (Tags acc)\<rparr>;
                  ((success, err), w) = UpsertAccountAtomically acc w
              in if \<not> success then (Failed errorTxFail, w) else (returned err, w))))"

definition legacy_lsusers :: "string list \<Rightarrow> world \<Rightarrow> outcome \<times> world" where
  "legacy_lsusers tokens w =
     (if length tokens \<noteq> 1 \<and> length tokens \<noteq> 2 then
        (Ok, Println ''Usage: lsusers [prefix]'' w)
      else
        (let prefix = (if length tokens = 2 then tokens ! 1 else []) in
         case RetrieveMultipleAccounts prefix w of
           (Inl err, w) \<Rightarrow> (Failed err, w)
         | (Inr accs, w) \<Rightarrow>
             (Ok, foldl (\<lambda>w acc.
                     if Tags acc = None then Print (Username acc @ '' [CORRUPT ENTRY]'' @ nl) w
                     else Println (Username acc) w)
                   w accs)))"

definition legacy_ls :: "string list \<Rightarrow> world \<Rightarrow> outcome \<times> world" where
  "legacy_ls tokens w =
     (if length tokens \<noteq> 1 \<and> length tokens \<noteq> 2 then
        (Ok, Println ''Usage: ls [prefix]'' w)
      else
        (let prefix = (if length tokens = 2 then tokens ! 1 else []) in
         case RetrieveMultipleAccounts prefix w of
           (Inl err, w) \<Rightarrow> (Failed err, w)
         | (Inr accs, w) \<Rightarrow>
             (Ok, foldl (\<lambda>w acc.
                     if Tags acc = None then Print (Username acc @ '' [CORRUPT ENTRY]'' @ nl) w
                     else Print (Username acc @ '': '' @ Join (setToSlice (Tags acc)) '' '' @ nl) w)
                   w accs)))"

section \<open>The admin-console module (package cli)\<close>

text \<open>
  Each \<open>exec\<close> closure takes the writer \<open>output\<close> and the tokens. \<open>MrPlotterCommand.Run\<close>
  is the only caller of \<open>exec\<close> (the field is not exported): it does not pass its own
  \<open>output\<close> on, but \<open>nil\<close>. A command of the \<open>cli\<close> package as the program runs it is
  therefore \<open>Run cli_revoke output tokens\<close>, and so on.
\<close>

definition Run :: "(writer \<Rightarrow> string list \<Rightarrow> world \<Rightarrow> cli_outcome \<times> world)
                    \<Rightarrow> writer \<Rightarrow> string list \<Rightarrow> world \<Rightarrow> cli_outcome \<times> world" where
  "Run exec output args w = exec NilWriter args w"

definition cli_revoke :: "writer \<Rightarrow> string list \<Rightarrow> world \<Rightarrow> cli_outcome \<times> world" where
  "cli_revoke output tokens w =
     (if \<not> length tokens \<ge> 3 then (ArgsOK False, w)
      else
        (case RetrieveAccount (tokens ! 1) w of
           (Inl err, w) \<Rightarrow> written (map_option snd (writeError output (Some err) w)) w
         | (Inr acc, w) \<Rightarrow>
             (case revoke_loop (drop 2 tokens) (Tags acc) of
                None \<Rightarrow>
                  written (writeStringf output
                             (''All user accounts must be assigned the '' @ dq @ PUBLIC_TAG @ dq
                                @ '' tag'' @ nl) w) w
              | Some tags \<Rightarrow>
                  (let acc = acc\<lparr>Tags := tags\<rparr>;
                       ((success, err), w) = UpsertAccountAtomically acc w
                   in if \<not> success then written (writeString output txFail w) w
                      else written (map_option snd (writeError output err w)) w))))"

fun cli_undeftag_loop :: "writer \<Rightarrow> string list \<Rightarrow> world \<Rightarrow> cli_outcome \<times> world" where
  "cli_undeftag_loop output [] w = (ArgsOK True, w)"
| "cli_undeftag_loop output (tagname # rest) w =
     (if tagname = ALL_TAG
      then written (writeStringf output (''Tag '' @ dq @ ALL_TAG @ dq @ '' cannot be deleted'' @ nl) w) w
      else
        (case DeleteTagDef tagname w of
           (Some err, w') \<Rightarrow> written (map_option snd (writeError output (Some err) w')) w'
         | (None, w') \<Rightarrow> cli_undeftag_loop output rest w'))"

definition cli_undeftag :: "writer \<Rightarrow> string list \<Rightarrow> world \<Rightarrow> cli_outcome \<times> world" where
  "cli_undeftag output tokens w =
     (if \<not> length tokens \<ge> 2 then (ArgsOK False, w)
      else cli_undeftag_loop output (drop 1 tokens) w)"

definition cli_rmprefix :: "writer \<Rightarrow> string list \<Rightarrow> world \<Rightarrow> cli_outcome \<times> world" where
  "cli_rmprefix output tokens w =
     (if \<not> length tokens \<ge> 3 then (ArgsOK False, w)
      else if tokens ! 1 = ALL_TAG then
        written (writeStringf output
                   (''Cannot modify definition of '' @ dq @ ALL_TAG @ dq @ '' tag'' @ nl) w) w
      else
        (case RetrieveTagDef (tokens ! 1) w of
           (Inl err, w) \<Rightarrow> written (map_option snd (writeError output (Some err) w)) w
         | (Inr tagdef, w) \<Rightarrow>
             (case rmprefix_loop (drop 2 tokens) (PathPrefix tagdef) of
                None \<Rightarrow>
                  written (writeString output
                             ''Each tag must be assigned at least one prefix (use undeftag or undeftags to fully remove a tag)'' w) w
              | Some pfxSet \<Rightarrow>
                  (let tagdef = tagdef\<lparr>PathPrefix := pfxSet\<rparr>;
                       ((success, err), w) = UpsertTagDefAtomically tagdef w
                   in if \<not> success then written (writeString output txFail w) w
                      else written (map_option snd (writeError output err w)) w))))"

fun cli_showtagdef_loop :: "writer \<Rightarrow> string list \<Rightarrow> string list \<Rightarrow> world
                            \<Rightarrow> cli_outcome \<times> world" where
  "cli_showtagdef_loop output tokens [] w = (ArgsOK True, w)"
| "cli_showtagdef_loop output tokens (tagname # rest) w =
     (if tokens ! 1 = ALL_TAG
      then written (writeStringf output (ALL_TAG @ '': '' @ AllTagSymbol @ nl) w) w
      else
        (case RetrieveTagDef tagname w of
           (Inl err, w') \<Rightarrow> written (map_option snd (writeError output (Some err) w')) w'
         | (Inr tagdef, w') \<Rightarrow>
             (case writeStringf output
                     (tagname @ '': '' @ Join (setToSlice (PathPrefix tagdef)) '' '' @ nl) w' of
                None \<Rightarrow> (CliPanicked, w')
              | Some w'' \<Rightarrow> cli_showtagdef_loop output tokens rest w'')))"

definition cli_showtagdef :: "writer \<Rightarrow> string list \<Rightarrow> world \<Rightarrow> cli_outcome \<times> world" where
  "cli_showtagdef output tokens w =
     (if \<not> length tokens \<ge> 2 then (ArgsOK False, w)
      else cli_showtagdef_loop output tokens (drop 1 tokens) w)"

text \<open>
  The loop of \<open>ls\<close> over the accounts. The tag cache is made once, before the loop, and
  handed from account to account.
\<close>

fun cli_ls_loop :: "writer \<Rightarrow> (string \<times> strset option) list \<Rightarrow> MrPlotterAccount list \<Rightarrow> world
                    \<Rightarrow> cli_outcome \<times> world" where
  "cli_ls_loop output tagcache [] w = (ArgsOK True, w)"
| "cli_ls_loop output tagcache (acc # accs) w =
     (if Tags acc = None then
        (case writeStringf output (Username acc @ '' [CORRUPT ENTRY]'' @ nl) w of
           None \<Rightarrow> (CliPanicked, w)
         | Some w' \<Rightarrow> cli_ls_loop output tagcache accs w')
      else
        (case ls_tags tagcache (map_range (Tags acc)) [] w of
           (Inl (tag, err), w') \<Rightarrow>
             written (writeStringf output
                        (''Could not retrieve tag information for '' @ sq @ tag @ sq
                           @ '': '' @ error_text err @ nl) w') w'
         | (Inr prefixes, w') \<Rightarrow>
             (case writeStringf output
                     (Username acc @ '': '' @ Join (setToSlice (Some prefixes)) '' '' @ nl) w' of
                None \<Rightarrow> (CliPanicked, w')
              | Some w'' \<Rightarrow> cli_ls_loop output tagcache accs w'')))"

definition cli_ls :: "writer \<Rightarrow> string list \<Rightarrow> world \<Rightarrow> cli_outcome \<times> world" where
  "cli_ls output tokens w =
     (if \<not> (length tokens = 1 \<or> length tokens = 2) then (ArgsOK False, w)
      else
        (let prefix = (if length tokens = 2 then tokens ! 1 else []) in
         case RetrieveMultipleAccounts prefix w of
           (Inl err, w) \<Rightarrow> written (map_option snd (writeError output (Some err) w)) w
         | (Inr accs, w) \<Rightarrow>
             (let tagcache = [] in cli_ls_loop output tagcache accs w)))"

section \<open>What a command wrote\<close>

text \<open>
  The accounts, the tag definitions and the keys that the calls after the first \<open>n\<close>
  of a log handed to an upsert, a tag lookup or a tag delete.
\<close>

fun upserted_account :: "call \<Rightarrow> MrPlotterAccount list" where
  "upserted_account (CallUpsertAccount acc) = [acc]"
| "upserted_account _ = []"

fun upserted_tagdef :: "call \<Rightarrow> MrPlotterTagDef list" where
  "upserted_tagdef (CallUpsertTagDef tagdef) = [tagdef]"
| "upserted_tagdef _ = []"

definition upserts :: "world \<Rightarrow> world \<Rightarrow> MrPlotterAccount list" where
  "upserts w w' = concat (map upserted_account (drop (length (calls w)) (calls w')))"

definition tagdef_upserts :: "world \<Rightarrow> world \<Rightarrow> MrPlotterTagDef list" where
  "tagdef_upserts w w' = concat (map upserted_tagdef (drop (length (calls w)) (calls w')))"

definition new_calls :: "world \<Rightarrow> world \<Rightarrow> call list" where
  "new_calls w w' = drop (length (calls w)) (calls w')"

text \<open>The store of a world: everything but the log and the output.\<close>

definition same_store :: "world \<Rightarrow> world \<Rightarrow> bool" where
  "same_store w w' =
     (accts w' = accts w \<and> tagdefs w' = tagdefs w \<and> revision w' = revision w \<and> faults w' = faults w)"

text \<open>
  Two runs have the same store effects when they leave the same store and made the same
  calls; two outcomes are equivalent when both are a success, both an error or both a
  panic.
\<close>

definition same_effects :: "world \<Rightarrow> world \<Rightarrow> bool" where
  "same_effects w1 w2 =
     (accts w1 = accts w2 \<and> tagdefs w1 = tagdefs w2 \<and> revision w1 = revision w2 \<and> calls w1 = calls w2)"

fun same_outcome :: "outcome \<Rightarrow> outcome \<Rightarrow> bool" where
  "same_outcome Ok Ok = True"
| "same_outcome (Failed e1) (Failed e2) = True"
| "same_outcome Panicked Panicked = True"
| "same_outcome _ _ = False"

section \<open>Example stores\<close>

definition account_of :: "string \<Rightarrow> string list \<Rightarrow> MrPlotterAccount" where
  "account_of username tags =
     \<lparr>Username = username, Tags = Some tags, PasswordHash = Derived ''pw1'', accRevision = 1\<rparr>"

definition tagdef_of :: "string \<Rightarrow> string list \<Rightarrow> MrPlotterTagDef" where
  "tagdef_of tag pfxs = \<lparr>Tag = tag, PathPrefix = Some pfxs, tagRevision = 1\<rparr>"

definition store_of :: "MrPlotterAccount list \<Rightarrow> MrPlotterTagDef list \<Rightarrow> world" where
  "store_of as ds =
     \<lparr>accts = as, tagdefs = ds, revision = 1, faults = (\<lambda>c. None), calls = [], printed = []\<rparr>"

text \<open>The tags that a \<open>range\<close> in the order \<open>tags\<close> visits before it comes to \<open>all\<close>.\<close>

abbreviation before_all :: "string list \<Rightarrow> string list" where
  "before_all tags \<equiv> takeWhile (\<lambda>t. t \<noteq> ALL_TAG) tags"

section \<open>Sets\<close>

lemma set_set_put: "set (set_put k s) = insert k (set s)"
  by (auto simp: set_put_def)

lemma set_foldl_set_put: "set (foldl (\<lambda>tagSet tag. set_put tag tagSet) s xs) = set s \<union> set xs"
  by (induction xs arbitrary: s) (auto simp: set_set_put)

lemma set_sliceToSet: "set (sliceToSet xs) = set xs"
  by (simp add: sliceToSet_def set_foldl_set_put)

lemma map_has_delete: "map_has k (map_delete t m) = (map_has k m \<and> k \<noteq> t)"
  by (auto simp: map_has_def map_delete_def split: option.splits)

lemma revoke_loop_keeps:
  "revoke_loop tags m = Some m' \<Longrightarrow> map_has k m' = (map_has k m \<and> k \<notin> set tags)"
  by (induction tags arbitrary: m) (auto simp: map_has_delete split: if_splits)

lemma revoke_loop_None: "(revoke_loop tags m = None) = (PUBLIC_TAG \<in> set tags)"
  by (induction tags arbitrary: m) auto

lemma rmtags_loop_keeps:
  "map_has k (rmtags_loop tags m) = (map_has k m \<and> (k \<notin> set tags \<or> k = ''public''))"
  by (induction tags arbitrary: m) (auto simp: map_has_delete)

section \<open>The store\<close>

lemma lookup_put_account:
  "lookup_account u (put_account acc as) =
     (if u = Username acc then Some acc else lookup_account u as)"
  by (induction as) (auto simp: lookup_account_def)

lemma lookup_account_Username: "lookup_account u as = Some a \<Longrightarrow> Username a = u"
  by (induction as) (auto simp: lookup_account_def split: if_splits)

lemma lookup_put_tagdef:
  "lookup_tagdef t (put_tagdef d ds) = (if t = Tag d then Some d else lookup_tagdef t ds)"
  by (induction ds) (auto simp: lookup_tagdef_def)

lemma lookup_tagdef_Tag: "lookup_tagdef t ds = Some d \<Longrightarrow> Tag d = t"
  by (induction ds) (auto simp: lookup_tagdef_def split: if_splits)

lemma RetrieveAccount_effect:
  "RetrieveAccount u w = (r, w') \<Longrightarrow> w' = logged (CallRetrieveAccount u) w"
  by (auto simp: RetrieveAccount_def Let_def split: option.splits)

lemma RetrieveAccount_Inr:
  "RetrieveAccount u w = (Inr a, w') \<Longrightarrow> lookup_account u (accts w) = Some a"
  by (auto simp: RetrieveAccount_def Let_def split: option.splits)

lemma RetrieveAccount_found:
  "lookup_account u (accts w) = Some a \<Longrightarrow> faults w (CallRetrieveAccount u) = None \<Longrightarrow>
     RetrieveAccount u w = (Inr a, logged (CallRetrieveAccount u) w)"
  by (simp add: RetrieveAccount_def)

lemma Upsert_calls:
  "UpsertAccountAtomically acc w = (r, w') \<Longrightarrow> calls w' = calls w @ [CallUpsertAccount acc]"
  by (auto simp: UpsertAccountAtomically_def Let_def logged_def split: option.splits if_splits)

lemma Upsert_accts:
  "UpsertAccountAtomically acc w = ((ok, err), w') \<Longrightarrow>
     accts w' = (if ok then put_account (acc\<lparr>accRevision := revision w + 1\<rparr>) (accts w) else accts w)"
  by (auto simp: UpsertAccountAtomically_def Let_def logged_def split: option.splits if_splits)

section \<open>The tag public\<close>

lemma repl_adduser_writes:
  assumes "length tokens \<ge> 3"
  shows "\<exists>acc s. upserts w (snd (repl_adduser tokens w)) = [acc] \<and> Username acc = tokens ! 1
           \<and> Tags acc = Some s \<and> set s = set (drop 3 tokens) \<union> {PUBLIC_TAG}"
  using assms
  apply (simp add: repl_adduser_def Let_def split: prod.splits)
  apply (auto simp: upserts_def SetPassword_def set_set_put set_sliceToSet dest!: Upsert_calls)
  done

lemma repl_adduser_stored:
  assumes "length tokens \<ge> 3" "fst (repl_adduser tokens w) = Ok"
  shows "\<exists>a s. lookup_account (tokens ! 1) (accts (snd (repl_adduser tokens w))) = Some a
           \<and> Tags a = Some s \<and> set s = set (drop 3 tokens) \<union> {PUBLIC_TAG}"
  using assms
  apply (simp add: repl_adduser_def Let_def split: prod.splits if_splits)
  apply (auto simp: SetPassword_def set_set_put set_sliceToSet lookup_put_account dest!: Upsert_accts)
  done

lemma repl_revoke_public:
  assumes "lookup_account u (accts w) = Some a" "map_has PUBLIC_TAG (Tags a)"
    and "repl_revoke (cmd # u # tags) w = (r, w')"
  shows "list_all (\<lambda>b. map_has PUBLIC_TAG (Tags b)) (upserts w w') \<and>
         (\<exists>a'. lookup_account u (accts w') = Some a' \<and> map_has PUBLIC_TAG (Tags a'))"
proof (cases "tags = []")
  case True
  with assms show ?thesis
    by (auto simp: repl_revoke_def upserts_def Println_def Print_def)
next
  case False
  then have len: "\<not> length (cmd # u # tags) < 3" by (cases tags) auto
  obtain ra w1 where ra: "RetrieveAccount u w = (ra, w1)" by (cases "RetrieveAccount u w")
  then have w1: "w1 = logged (CallRetrieveAccount u) w" by (rule RetrieveAccount_effect)
  show ?thesis
  proof (cases ra)
    case (Inl e)
    with assms ra len w1 show ?thesis
      by (auto simp: repl_revoke_def upserts_def logged_def)
  next
    case (Inr acc)
    with ra assms(1) have acc: "acc = a" by (auto dest: RetrieveAccount_Inr)
    show ?thesis
    proof (cases "revoke_loop tags (Tags a)")
      case None
      with assms ra len w1 Inr acc show ?thesis
        by (auto simp: repl_revoke_def upserts_def logged_def)
    next
      case (Some m)
      with assms(2) have pub: "map_has PUBLIC_TAG m"
        using revoke_loop_keeps[OF Some, of PUBLIC_TAG] revoke_loop_None[of tags "Tags a"] by auto
      obtain ok err w2 where up: "UpsertAccountAtomically (a\<lparr>Tags := m\<rparr>) w1 = ((ok, err), w2)"
        by (cases "UpsertAccountAtomically (a\<lparr>Tags := m\<rparr>) w1") auto
      have w': "w' = w2" using assms(3) ra len Inr acc Some up
        by (auto simp: repl_revoke_def split: if_splits)
      have ua: "Username a = u" using assms(1) by (rule lookup_account_Username)
      from Upsert_calls[OF up] w1 have "upserts w w2 = [a\<lparr>Tags := m\<rparr>]"
        by (simp add: upserts_def logged_def)
      moreover from Upsert_accts[OF up] w1 assms(1,2) pub ua
      have "\<exists>a'. lookup_account u (accts w2) = Some a' \<and> map_has PUBLIC_TAG (Tags a')"
        by (auto simp: logged_def lookup_put_account)
      ultimately show ?thesis using w' pub by simp
    qed
  qed
qed

lemma legacy_rmtags_public:
  assumes "lookup_account u (accts w) = Some a" "map_has ''public'' (Tags a)"
    and "legacy_rmtags (cmd # u # tags) w = (r, w')"
  shows "list_all (\<lambda>b. map_has ''public'' (Tags b)) (upserts w w') \<and>
         (\<exists>a'. lookup_account u (accts w') = Some a' \<and> map_has ''public'' (Tags a'))"
proof (cases "tags = []")
  case True
  with assms show ?thesis
    by (auto simp: legacy_rmtags_def upserts_def Println_def Print_def)
next
  case False
  then have len: "\<not> length (cmd # u # tags) < 3" by (cases tags) auto
  obtain ra w1 where ra: "RetrieveAccount u w = (ra, w1)" by (cases "RetrieveAccount u w")
  then have w1: "w1 = logged (CallRetrieveAccount u) w" by (rule RetrieveAccount_effect)
  show ?thesis
  proof (cases ra)
    case (Inl e)
    with assms ra len w1 show ?thesis
      by (auto simp: legacy_rmtags_def upserts_def logged_def)
  next
    case (Inr acc)
    with ra assms(1) have acc: "acc = a" by (auto dest: RetrieveAccount_Inr)
    define m where "m = rmtags_loop tags (Tags a)"
    have pub: "map_has ''public'' m"
      using assms(2) by (simp add: m_def rmtags_loop_keeps)
    obtain ok err w2 where up: "UpsertAccountAtomically (a\<lparr>Tags := m\<rparr>) w1 = ((ok, err), w2)"
      by (cases "UpsertAccountAtomically (a\<lparr>Tags := m\<rparr>) w1") auto
    have w': "w' = w2" using assms(3) ra len Inr acc up
      by (auto simp: legacy_rmtags_def m_def split: if_splits)
    have ua: "Username a = u" using assms(1) by (rule lookup_account_Username)
    from Upsert_calls[OF up] w1 have "upserts w w2 = [a\<lparr>Tags := m\<rparr>]"
      by (simp add: upserts_def logged_def)
    moreover from Upsert_accts[OF up] w1 assms(1,2) pub ua
    have "\<exists>a'. lookup_account u (accts w2) = Some a' \<and> map_has ''public'' (Tags a')"
      by (auto simp: logged_def lookup_put_account)
    ultimately show ?thesis using w' pub by simp
  qed
qed

text \<open>
  C1. Every account that the commands store holds the tag \<open>public\<close>. \<open>adduser\<close> hands to
  the store one account, under the given username, whose tags are the given tags and
  \<open>public\<close>, and when it succeeds that account is the stored one. For an account that
  is stored with the tag \<open>public\<close>, whatever list of tags \<open>revoke\<close> (second REPL) or
  \<open>rmtags\<close> (\<open>main.go\<close>) is asked to take away, every account the command hands to the
  store still holds \<open>public\<close>, and so does the account stored afterwards.
\<close>

theorem public_tag_kept:
  "(3 \<le> length tokens \<longrightarrow>
      (\<exists>acc s. upserts w (snd (repl_adduser tokens w)) = [acc] \<and> Username acc = tokens ! 1
          \<and> Tags acc = Some s \<and> set s = set (drop 3 tokens) \<union> {PUBLIC_TAG})
      \<and> (fst (repl_adduser tokens w) = Ok \<longrightarrow>
           (\<exists>a s. lookup_account (tokens ! 1) (accts (snd (repl_adduser tokens w))) = Some a
               \<and> Tags a = Some s \<and> set s = set (drop 3 tokens) \<union> {PUBLIC_TAG})))
   \<and> (lookup_account u (accts w) = Some a \<and> map_has PUBLIC_TAG (Tags a) \<longrightarrow>
        list_all (\<lambda>b. map_has PUBLIC_TAG (Tags b)) (upserts w (snd (repl_revoke (cmd # u # tags) w)))
        \<and> (\<exists>a'. lookup_account u (accts (snd (repl_revoke (cmd # u # tags) w))) = Some a'
              \<and> map_has PUBLIC_TAG (Tags a')))
   \<and> (lookup_account u (accts w) = Some a \<and> map_has ''public'' (Tags a) \<longrightarrow>
        list_all (\<lambda>b. map_has ''public'' (Tags b)) (upserts w (snd (legacy_rmtags (cmd # u # tags) w)))
        \<and> (\<exists>a'. lookup_account u (accts (snd (legacy_rmtags (cmd # u # tags) w))) = Some a'
              \<and> map_has ''public'' (Tags a')))"
proof (intro conjI impI)
  assume "3 \<le> length tokens"
  then show "\<exists>acc s. upserts w (snd (repl_adduser tokens w)) = [acc] \<and> Username acc = tokens ! 1
          \<and> Tags acc = Some s \<and> set s = set (drop 3 tokens) \<union> {PUBLIC_TAG}"
    by (rule repl_adduser_writes)
next
  assume "3 \<le> length tokens" "fst (repl_adduser tokens w) = Ok"
  then show "\<exists>a s. lookup_account (tokens ! 1) (accts (snd (repl_adduser tokens w))) = Some a
               \<and> Tags a = Some s \<and> set s = set (drop 3 tokens) \<union> {PUBLIC_TAG}"
    by (rule repl_adduser_stored)
next
  assume h: "lookup_account u (accts w) = Some a \<and> map_has PUBLIC_TAG (Tags a)"
  obtain r w' where rw: "repl_revoke (cmd # u # tags) w = (r, w')"
    by (cases "repl_revoke (cmd # u # tags) w")
  from repl_revoke_public[OF _ _ rw] h rw
  show "list_all (\<lambda>b. map_has PUBLIC_TAG (Tags b)) (upserts w (snd (repl_revoke (cmd # u # tags) w)))"
    and "\<exists>a'. lookup_account u (accts (snd (repl_revoke (cmd # u # tags) w))) = Some a'
              \<and> map_has PUBLIC_TAG (Tags a')"
    by auto
next
  assume h: "lookup_account u (accts w) = Some a \<and> map_has ''public'' (Tags a)"
  obtain r w' where rw: "legacy_rmtags (cmd # u # tags) w = (r, w')"
    by (cases "legacy_rmtags (cmd # u # tags) w")
  from legacy_rmtags_public[OF _ _ rw] h rw
  show "list_all (\<lambda>b. map_has ''public'' (Tags b)) (upserts w (snd (legacy_rmtags (cmd # u # tags) w)))"
    and "\<exists>a'. lookup_account u (accts (snd (legacy_rmtags (cmd # u # tags) w))) = Some a'
              \<and> map_has ''public'' (Tags a')"
    by auto
qed

theorem public_tag_kept_witness:
  "3 \<le> length [''adduser'', ''alice'', ''pw1'', ''teamA'']
   \<and> fst (repl_adduser [''adduser'', ''alice'', ''pw1'', ''teamA'']
             (store_of [account_of ''bob'' [''teamA'', ''public'']] [])) = Ok
   \<and> lookup_account ''bob'' (accts (store_of [account_of ''bob'' [''teamA'', ''public'']] []))
        = Some (account_of ''bob'' [''teamA'', ''public''])
   \<and> map_has PUBLIC_TAG (Tags (account_of ''bob'' [''teamA'', ''public'']))
   \<and> (\<exists>a s. lookup_account ''alice''
          (accts (snd (repl_adduser [''adduser'', ''alice'', ''pw1'', ''teamA'']
             (store_of [account_of ''bob'' [''teamA'', ''public'']] [])))) = Some a
          \<and> Tags a = Some s \<and> set s = {''teamA'', PUBLIC_TAG})
   \<and> (\<exists>a'. lookup_account ''bob''
          (accts (snd (repl_revoke [''revoke'', ''bob'', ''teamA'']
             (store_of [account_of ''bob'' [''teamA'', ''public'']] [])))) = Some a'
          \<and> map_has PUBLIC_TAG (Tags a'))
   \<and> (\<exists>a'. lookup_account ''bob''
          (accts (snd (legacy_rmtags [''rmtags'', ''bob'', ''teamA'']
             (store_of [account_of ''bob'' [''teamA'', ''public'']] [])))) = Some a'
          \<and> map_has ''public'' (Tags a'))"
  using public_tag_kept [of "[''adduser'', ''alice'', ''pw1'', ''teamA'']"
      "store_of [account_of ''bob'' [''teamA'', ''public'']] []" "''bob''"
      "account_of ''bob'' [''teamA'', ''public'']" "''rmtags''" "[''teamA'']"]
  by (simp add: repl_adduser_def repl_revoke_def legacy_rmtags_def store_of_def account_of_def
      RetrieveAccount_def UpsertAccountAtomically_def logged_def lookup_account_def
      SetPassword_def sliceToSet_def set_put_def map_has_def map_delete_def PUBLIC_TAG_def
      returned_def Let_def)

section \<open>Effects of the store operations\<close>

lemma fields_after_output [simp]:
  "tagdefs (Print s w) = tagdefs w" "tagdefs (Println s w) = tagdefs w"
  "tagdefs (logged c w) = tagdefs w"
  "calls (Print s w) = calls w" "calls (Println s w) = calls w"
  "calls (logged c w) = calls w @ [c]"
  "accts (Print s w) = accts w" "accts (Println s w) = accts w"
  "accts (logged c w) = accts w"
  by (simp_all add: Print_def Println_def logged_def)


lemma RetrieveTagDef_effect:
  "RetrieveTagDef t w = (r, w') \<Longrightarrow> w' = logged (CallRetrieveTagDef t) w"
  by (auto simp: RetrieveTagDef_def Let_def split: option.splits)

lemma RetrieveTagDef_Inr:
  "RetrieveTagDef t w = (Inr d, w') \<Longrightarrow> lookup_tagdef t (tagdefs w) = Some d"
  by (auto simp: RetrieveTagDef_def Let_def split: option.splits)

lemma RetrieveTagDef_found:
  "lookup_tagdef t (tagdefs w) = Some d \<Longrightarrow> faults w (CallRetrieveTagDef t) = None \<Longrightarrow>
     RetrieveTagDef t w = (Inr d, logged (CallRetrieveTagDef t) w)"
  by (simp add: RetrieveTagDef_def)

lemma UpsertTagDef_calls:
  "UpsertTagDefAtomically d w = (r, w') \<Longrightarrow> calls w' = calls w @ [CallUpsertTagDef d]"
  by (auto simp: UpsertTagDefAtomically_def Let_def logged_def split: option.splits if_splits)

lemma UpsertTagDef_tagdefs:
  "UpsertTagDefAtomically d w = ((ok, err), w') \<Longrightarrow>
     tagdefs w' = (if ok then put_tagdef (d\<lparr>tagRevision := revision w + 1\<rparr>) (tagdefs w) else tagdefs w)"
  by (auto simp: UpsertTagDefAtomically_def Let_def logged_def split: option.splits if_splits)

lemma map_len_delete: "map_has k m \<Longrightarrow> map_len (map_delete k m) = map_len m - 1"
  by (auto simp: map_has_def map_len_def map_delete_def length_remdups_card_conv
      split: option.splits)

lemma rmprefix_loop_nonempty:
  "rmprefix_loop pfxs m = Some m' \<Longrightarrow> 1 \<le> map_len m \<Longrightarrow> 1 \<le> map_len m'"
proof (induction pfxs arbitrary: m)
  case Nil
  then show ?case by simp
next
  case (Cons pfx rest)
  show ?case
  proof (cases "map_has pfx m")
    case True
    with Cons.prems have ne: "map_len m \<noteq> 1" and rec: "rmprefix_loop rest (map_delete pfx m) = Some m'"
      by (auto split: if_splits)
    from True ne Cons.prems(2) have "1 \<le> map_len (map_delete pfx m)"
      by (simp add: map_len_delete)
    with rec show ?thesis by (rule Cons.IH)
  next
    case False
    with Cons show ?thesis by simp
  qed
qed

lemma rmprefix_loop_last:
  "map_len m = 1 \<Longrightarrow> p \<in> set pfxs \<Longrightarrow> map_has p m \<Longrightarrow> rmprefix_loop pfxs m = None"
  by (induction pfxs) auto

lemma repl_rmprefix_last:
  assumes "lookup_tagdef t (tagdefs w) = Some d" "map_len (PathPrefix d) = 1"
    "map_has p (PathPrefix d)" "p \<in> set pfxs" "t \<noteq> ALL_TAG" "faults w (CallRetrieveTagDef t) = None"
  shows "repl_rmprefix (cmd # t # pfxs) w =
     (Failed (ErrorString ''Each tag must be assigned at least one prefix (use undeftag or undeftags to fully remove a tag)''),
      logged (CallRetrieveTagDef t) w)"
proof -
  from assms(4) have "\<not> length (cmd # t # pfxs) < 3" by (cases pfxs) auto
  with assms show ?thesis
    by (simp add: repl_rmprefix_def RetrieveTagDef_found rmprefix_loop_last)
qed

lemma repl_rmprefix_nonempty:
  assumes "lookup_tagdef t (tagdefs w) = Some d" "1 \<le> map_len (PathPrefix d)"
    and "repl_rmprefix (cmd # t # pfxs) w = (r, w')"
  shows "list_all (\<lambda>d'. 1 \<le> map_len (PathPrefix d')) (tagdef_upserts w w') \<and>
         (\<exists>d'. lookup_tagdef t (tagdefs w') = Some d' \<and> 1 \<le> map_len (PathPrefix d'))"
proof -
  consider (usage) "length (cmd # t # pfxs) < 3" | (all) "\<not> length (cmd # t # pfxs) < 3" "t = ALL_TAG"
    | (go) "\<not> length (cmd # t # pfxs) < 3" "t \<noteq> ALL_TAG" by blast
  then show ?thesis
  proof cases
    case usage
    with assms show ?thesis by (auto simp: repl_rmprefix_def tagdef_upserts_def)
  next
    case all
    with assms show ?thesis by (auto simp: repl_rmprefix_def tagdef_upserts_def)
  next
    case go
    obtain rd w1 where rd: "RetrieveTagDef t w = (rd, w1)" by (cases "RetrieveTagDef t w")
    then have w1: "w1 = logged (CallRetrieveTagDef t) w" by (rule RetrieveTagDef_effect)
    show ?thesis
    proof (cases rd)
      case (Inl e)
      with assms rd go w1 show ?thesis
        by (auto simp: repl_rmprefix_def tagdef_upserts_def)
    next
      case (Inr d0)
      with rd assms(1) have d0: "d0 = d" by (auto dest: RetrieveTagDef_Inr)
      show ?thesis
      proof (cases "rmprefix_loop pfxs (PathPrefix d)")
        case None
        with assms rd go w1 Inr d0 show ?thesis
          by (auto simp: repl_rmprefix_def tagdef_upserts_def)
      next
        case (Some m)
        from rmprefix_loop_nonempty[OF Some assms(2)] have ne: "1 \<le> map_len m" .
        obtain ok err w2 where up: "UpsertTagDefAtomically (d\<lparr>PathPrefix := m\<rparr>) w1 = ((ok, err), w2)"
          by (cases "UpsertTagDefAtomically (d\<lparr>PathPrefix := m\<rparr>) w1") auto
        have w': "w' = w2" using assms(3) rd go Inr d0 Some up
          by (auto simp: repl_rmprefix_def split: if_splits)
        have td: "Tag d = t" using assms(1) by (rule lookup_tagdef_Tag)
        from UpsertTagDef_calls[OF up] w1 have "tagdef_upserts w w2 = [d\<lparr>PathPrefix := m\<rparr>]"
          by (simp add: tagdef_upserts_def)
        moreover from UpsertTagDef_tagdefs[OF up] w1 assms(1,2) ne td
        have "\<exists>d'. lookup_tagdef t (tagdefs w2) = Some d' \<and> 1 \<le> map_len (PathPrefix d')"
          by (auto simp: lookup_put_tagdef)
        ultimately show ?thesis using w' ne by simp
      qed
    qed
  qed
qed

text \<open>
  C2 fails on the code of the \<open>cli\<close> package. For a tag with exactly one prefix, an
  \<open>rmprefix\<close> that names the prefix leaves the store as it is in both later tables, and
  the second REPL returns the explanatory error. The \<open>cli\<close> command reports nothing:
  \<open>Run\<close> hands \<open>exec\<close> a nil writer, so the write of the explanatory text panics.
\<close>

theorem rmprefix_cli_reports_nothing:
  "Run cli_rmprefix Writer [''rmprefix'', ''teamA'', ''/bldg1/'']
     (store_of [] [tagdef_of ''teamA'' [''/bldg1/'']]) =
     (CliPanicked, (store_of [] [tagdef_of ''teamA'' [''/bldg1/'']])
        \<lparr>calls := [CallRetrieveTagDef ''teamA'']\<rparr>)
   \<and> repl_rmprefix [''rmprefix'', ''teamA'', ''/bldg1/'']
     (store_of [] [tagdef_of ''teamA'' [''/bldg1/'']]) =
     (Failed (ErrorString ''Each tag must be assigned at least one prefix (use undeftag or undeftags to fully remove a tag)''),
      (store_of [] [tagdef_of ''teamA'' [''/bldg1/'']])
        \<lparr>calls := [CallRetrieveTagDef ''teamA'']\<rparr>)"
  by (simp add: Run_def cli_rmprefix_def repl_rmprefix_def store_of_def tagdef_of_def ALL_TAG_def
      RetrieveTagDef_def lookup_tagdef_def logged_def map_has_def map_len_def
      written_def writeString_def Let_def)

section \<open>Revoking the tag public\<close>

lemma same_store_output [simp]:
  "same_store w (logged c w)" "same_store w (Print s w')= same_store w w'"
  "same_store w (Println s w') = same_store w w'"
  by (simp_all add: same_store_def Print_def Println_def logged_def)

lemma written_store:
  "same_store w (snd (written (writeString output s w') w')) = same_store w w'"
  "same_store w (snd (written (writeStringf output s w') w')) = same_store w w'"
  "same_store w (snd (written (map_option snd (writeError output e w')) w')) = same_store w w'"
  "upserts w (snd (written (writeString output s w') w')) = upserts w w'"
  "upserts w (snd (written (writeStringf output s w') w')) = upserts w w'"
  "upserts w (snd (written (map_option snd (writeError output e w')) w')) = upserts w w'"
  by (cases "output"; cases e;
      simp add: written_def writeString_def writeStringf_def writeError_def upserts_def)+

lemma upserts_output [simp]:
  "upserts w (Print s w') = upserts w w'" "upserts w (Println s w') = upserts w w'"
  by (simp_all add: upserts_def)

lemma repl_revoke_rejects:
  assumes "PUBLIC_TAG \<in> set tags"
  shows "snd (repl_revoke (cmd # u # tags) w) = logged (CallRetrieveAccount u) w"
proof -
  from assms have len: "\<not> length (cmd # u # tags) < 3" by (cases tags) auto
  obtain ra w1 where ra: "RetrieveAccount u w = (ra, w1)" by (cases "RetrieveAccount u w")
  then have w1: "w1 = logged (CallRetrieveAccount u) w" by (rule RetrieveAccount_effect)
  from assms have "\<And>m. revoke_loop tags m = None" by (simp add: revoke_loop_None)
  with ra w1 len show ?thesis
    by (cases ra) (simp_all add: repl_revoke_def)
qed

lemma legacy_rmtags_writes:
  assumes "lookup_account u (accts w) = Some a" "faults w (CallRetrieveAccount u) = None"
    and "tags \<noteq> []"
  shows "upserts w (snd (legacy_rmtags (cmd # u # tags) w)) = [a\<lparr>Tags := rmtags_loop tags (Tags a)\<rparr>]"
proof -
  from assms(3) have len: "\<not> length (cmd # u # tags) < 3" by (cases tags) auto
  obtain r w2 where up: "UpsertAccountAtomically (a\<lparr>Tags := rmtags_loop tags (Tags a)\<rparr>)
      (logged (CallRetrieveAccount u) w) = (r, w2)"
    by (cases "UpsertAccountAtomically (a\<lparr>Tags := rmtags_loop tags (Tags a)\<rparr>)
      (logged (CallRetrieveAccount u) w)")
  from Upsert_calls[OF up] have "upserts w w2 = [a\<lparr>Tags := rmtags_loop tags (Tags a)\<rparr>]"
    by (simp add: upserts_def)
  with assms(1,2) len up show ?thesis
    by (cases r) (simp add: legacy_rmtags_def RetrieveAccount_found)
qed

text \<open>
  C7, as the claim states it, fails on \<open>rmtags\<close> of \<open>main.go\<close>: asked to take \<open>teamA\<close> and
  \<open>public\<close> from an account, it succeeds, writes the account back and \<open>teamA\<close> is gone.
\<close>

theorem rmtags_public_not_rejected:
  "fst (legacy_rmtags [''rmtags'', ''alice'', ''teamA'', ''public'']
         (store_of [account_of ''alice'' [''teamA'', ''teamB'', ''public'']] [])) = Ok
   \<and> upserts (store_of [account_of ''alice'' [''teamA'', ''teamB'', ''public'']] [])
        (snd (legacy_rmtags [''rmtags'', ''alice'', ''teamA'', ''public'']
           (store_of [account_of ''alice'' [''teamA'', ''teamB'', ''public'']] [])))
        = [account_of ''alice'' [''teamB'', ''public'']]
   \<and> accts (snd (legacy_rmtags [''rmtags'', ''alice'', ''teamA'', ''public'']
           (store_of [account_of ''alice'' [''teamA'', ''teamB'', ''public'']] [])))
        = [(account_of ''alice'' [''teamB'', ''public''])\<lparr>accRevision := 2\<rparr>]"
  by (simp add: legacy_rmtags_def store_of_def account_of_def RetrieveAccount_def
      UpsertAccountAtomically_def logged_def lookup_account_def upserts_def map_has_def
      map_delete_def returned_def Let_def)

lemma cli_revoke_rejects:
  assumes "PUBLIC_TAG \<in> set tags"
  shows "upserts w (snd (cli_revoke output (cmd # u # tags) w)) = [] \<and>
         same_store w (snd (cli_revoke output (cmd # u # tags) w))"
proof -
  from assms have len: "3 \<le> length (cmd # u # tags)" by (cases tags) auto
  obtain ra w1 where ra: "RetrieveAccount u w = (ra, w1)" by (cases "RetrieveAccount u w")
  then have w1: "w1 = logged (CallRetrieveAccount u) w" by (rule RetrieveAccount_effect)
  from assms have "\<And>m. revoke_loop tags m = None" by (simp add: revoke_loop_None)
  with ra w1 len show ?thesis
    by (cases ra) (simp_all add: cli_revoke_def written_store, simp_all add: upserts_def)
qed

text \<open>
  C7, amended. For every \<open>revoke\<close> of the second REPL and of the \<open>cli\<close> package (whatever
  writer it is run with) whose list of tags holds \<open>public\<close>, at any position, the command
  ends before it writes to the store: no upsert reaches the store and the store is as it
  was, so no tag is taken from the stored account, also none that stands before \<open>public\<close>
  in the list. When the account can be read, the second REPL returns the explanatory
  error. \<open>rmtags\<close> of \<open>main.go\<close> does not reject the request: it skips \<open>public\<close> and writes
  the account back without the other tags of the list.
\<close>

theorem revoke_public_rejected:
  "PUBLIC_TAG \<in> set tags \<longrightarrow>
     upserts w (snd (repl_revoke (cmd # u # tags) w)) = []
     \<and> same_store w (snd (repl_revoke (cmd # u # tags) w))
     \<and> upserts w (snd (cli_revoke output (cmd # u # tags) w)) = []
     \<and> same_store w (snd (cli_revoke output (cmd # u # tags) w))
     \<and> (lookup_account u (accts w) = Some a \<and> faults w (CallRetrieveAccount u) = None \<longrightarrow>
          repl_revoke (cmd # u # tags) w =
            (Failed (ErrorString (''All user accounts are assigned the '' @ dq @ PUBLIC_TAG @ dq
                                    @ '' tag'' @ nl)),
             logged (CallRetrieveAccount u) w)
          \<and> upserts w (snd (legacy_rmtags (cmd # u # tags) w))
              = [a\<lparr>Tags := rmtags_loop tags (Tags a)\<rparr>]
          \<and> (\<forall>k. map_has k (rmtags_loop tags (Tags a))
                   = (map_has k (Tags a) \<and> (k \<notin> set tags \<or> k = ''public''))))"
proof (intro impI conjI allI)
  assume pub: "PUBLIC_TAG \<in> set tags"
  then have len: "\<not> length (cmd # u # tags) < 3" "3 \<le> length (cmd # u # tags)" "tags \<noteq> []"
    by (cases tags; auto)+
  from pub have none: "\<And>m. revoke_loop tags m = None" by (simp add: revoke_loop_None)
  show "upserts w (snd (repl_revoke (cmd # u # tags) w)) = []"
    by (simp add: repl_revoke_rejects[OF pub] upserts_def)
  show "same_store w (snd (repl_revoke (cmd # u # tags) w))"
    by (simp add: repl_revoke_rejects[OF pub])
  show "upserts w (snd (cli_revoke output (cmd # u # tags) w)) = []"
    using cli_revoke_rejects[OF pub] by simp
  show "same_store w (snd (cli_revoke output (cmd # u # tags) w))"
    using cli_revoke_rejects[OF pub] by simp
  assume h: "lookup_account u (accts w) = Some a \<and> faults w (CallRetrieveAccount u) = None"
  with len none show "repl_revoke (cmd # u # tags) w =
            (Failed (ErrorString (''All user accounts are assigned the '' @ dq @ PUBLIC_TAG @ dq
                                    @ '' tag'' @ nl)),
             logged (CallRetrieveAccount u) w)"
    by (simp add: repl_revoke_def RetrieveAccount_found)
  from h len show "upserts w (snd (legacy_rmtags (cmd # u # tags) w))
              = [a\<lparr>Tags := rmtags_loop tags (Tags a)\<rparr>]"
    by (intro legacy_rmtags_writes) simp_all
  fix k
  show "map_has k (rmtags_loop tags (Tags a))
                   = (map_has k (Tags a) \<and> (k \<notin> set tags \<or> k = ''public''))"
    by (rule rmtags_loop_keeps)
qed

theorem revoke_public_rejected_witness:
  "PUBLIC_TAG \<in> set [''teamA'', ''public'']
   \<and> lookup_account ''alice'' (accts (store_of [account_of ''alice'' [''teamA'', ''teamB'', ''public'']] []))
       = Some (account_of ''alice'' [''teamA'', ''teamB'', ''public''])
   \<and> faults (store_of [account_of ''alice'' [''teamA'', ''teamB'', ''public'']] [])
       (CallRetrieveAccount ''alice'') = None
   \<and> repl_revoke [''revoke'', ''alice'', ''teamA'', ''public'']
        (store_of [account_of ''alice'' [''teamA'', ''teamB'', ''public'']] []) =
         (Failed (ErrorString (''All user accounts are assigned the '' @ dq @ PUBLIC_TAG @ dq
                                    @ '' tag'' @ nl)),
          logged (CallRetrieveAccount ''alice'')
            (store_of [account_of ''alice'' [''teamA'', ''teamB'', ''public'']] []))
   \<and> accts (snd (Run cli_revoke Writer [''revoke'', ''alice'', ''teamA'', ''public'']
        (store_of [account_of ''alice'' [''teamA'', ''teamB'', ''public'']] [])))
       = [account_of ''alice'' [''teamA'', ''teamB'', ''public'']]
   \<and> new_calls (store_of [account_of ''alice'' [''teamA'', ''teamB'', ''public'']] [])
        (snd (Run cli_revoke Writer [''revoke'', ''alice'', ''teamA'', ''public'']
           (store_of [account_of ''alice'' [''teamA'', ''teamB'', ''public'']] [])))
       = [CallRetrieveAccount ''alice'']
   \<and> upserts (store_of [account_of ''alice'' [''teamA'', ''teamB'', ''public'']] [])
        (snd (legacy_rmtags [''revoke'', ''alice'', ''teamA'', ''public'']
           (store_of [account_of ''alice'' [''teamA'', ''teamB'', ''public'']] [])))
       = [account_of ''alice'' [''teamB'', ''public'']]"
  using revoke_public_rejected [of "[''teamA'', ''public'']"
      "store_of [account_of ''alice'' [''teamA'', ''teamB'', ''public'']] []" "''revoke''" "''alice''"
      NilWriter "account_of ''alice'' [''teamA'', ''teamB'', ''public'']"]
  by (simp add: store_of_def account_of_def lookup_account_def PUBLIC_TAG_def same_store_def
      map_has_def map_delete_def Run_def cli_revoke_def RetrieveAccount_def logged_def
      written_def writeStringf_def writeString_def new_calls_def Let_def)

section \<open>showtagdef\<close>

lemma same_store_refl [simp]: "same_store w w"
  by (simp add: same_store_def)

lemma RetrieveTagDef_same_store:
  "same_store w w1 \<Longrightarrow> fst (RetrieveTagDef t w1) = fst (RetrieveTagDef t w)"
  by (simp add: RetrieveTagDef_def same_store_def Let_def split: option.splits)

lemma repl_showtagdef_loop_calls:
  "\<exists>cs. calls (snd (repl_showtagdef_loop tokens ts w)) = calls w @ cs"
proof (induction ts arbitrary: w)
  case Nil
  then show ?case by simp
next
  case (Cons t ts)
  show ?case
  proof (cases "tokens ! 1 = ALL_TAG")
    case True
    then show ?thesis by simp
  next
    case False
    obtain r w1 where r: "RetrieveTagDef t w = (r, w1)" by (cases "RetrieveTagDef t w")
    then have w1: "w1 = logged (CallRetrieveTagDef t) w" by (rule RetrieveTagDef_effect)
    show ?thesis
    proof (cases r)
      case (Inl e)
      with False r w1 show ?thesis by simp
    next
      case (Inr d)
      from Cons.IH[of "Print (t @ '': '' @ Join (setToSlice (PathPrefix d)) '' '' @ nl) w1"]
      show ?thesis using False r w1 Inr by auto
    qed
  qed
qed

lemma repl_showtagdef_loop_later_all:
  assumes "tokens ! 1 \<noteq> ALL_TAG" "\<forall>t\<in>set before. \<not> isl (fst (RetrieveTagDef t w))" "same_store w w1"
  shows "(\<exists>cs. calls (snd (repl_showtagdef_loop tokens (before @ ALL_TAG # after) w1))
            = calls w1 @ map CallRetrieveTagDef (before @ [ALL_TAG]) @ cs)
         \<and> (fst (RetrieveTagDef ALL_TAG w) = Inl e \<longrightarrow>
              fst (repl_showtagdef_loop tokens (before @ ALL_TAG # after) w1) = Failed e)"
  using assms(2,3)
proof (induction before arbitrary: w1)
  case Nil
  obtain r w2 where r: "RetrieveTagDef ALL_TAG w1 = (r, w2)" by (cases "RetrieveTagDef ALL_TAG w1")
  then have w2: "w2 = logged (CallRetrieveTagDef ALL_TAG) w1" by (rule RetrieveTagDef_effect)
  from r RetrieveTagDef_same_store[OF Nil.prems(2), of ALL_TAG]
  have same: "fst (RetrieveTagDef ALL_TAG w) = r" by simp
  show ?case
  proof (cases r)
    case (Inl e')
    with assms(1) r w2 same show ?thesis by simp
  next
    case (Inr d)
    from repl_showtagdef_loop_calls[of tokens after
        "Print (ALL_TAG @ '': '' @ Join (setToSlice (PathPrefix d)) '' '' @ nl) w2"]
    show ?thesis using assms(1) r w2 Inr same by auto
  qed
next
  case (Cons b before)
  obtain r w2 where r: "RetrieveTagDef b w1 = (r, w2)" by (cases "RetrieveTagDef b w1")
  then have w2: "w2 = logged (CallRetrieveTagDef b) w1" by (rule RetrieveTagDef_effect)
  from r RetrieveTagDef_same_store[OF Cons.prems(2), of b] Cons.prems(1)
  have "\<not> isl r" by simp
  then obtain d where d: "r = Inr d" by (cases r) auto
  let ?w3 = "Print (b @ '': '' @ Join (setToSlice (PathPrefix d)) '' '' @ nl) w2"
  have "same_store w ?w3" using Cons.prems(2) w2
    by (simp add: same_store_def Print_def logged_def)
  with Cons.IH[of ?w3] Cons.prems(1)
  have "(\<exists>cs. calls (snd (repl_showtagdef_loop tokens (before @ ALL_TAG # after) ?w3))
            = calls ?w3 @ map CallRetrieveTagDef (before @ [ALL_TAG]) @ cs)
         \<and> (fst (RetrieveTagDef ALL_TAG w) = Inl e \<longrightarrow>
              fst (repl_showtagdef_loop tokens (before @ ALL_TAG # after) ?w3) = Failed e)"
    by simp
  then show ?case using assms(1) r d w2 by simp
qed

text \<open>
  C10 fails on the code of the \<open>cli\<close> package. The second REPL does what the claim says:
  with \<open>all\<close> as the first tag it prints the symbol for all streams, looks nothing up and
  ignores the other tags; with \<open>all\<close> in a later place it looks \<open>all\<close> up in its turn.
  The \<open>cli\<close> command, run with the nil writer that \<open>Run\<close> hands it, panics at its first
  write: with \<open>all\<close> first the symbol is not printed, and with \<open>all\<close> after a tag that is
  found, \<open>all\<close> is never looked up.
\<close>

theorem showtagdef_cli_prints_nothing:
  "Run cli_showtagdef Writer [''showtagdef'', ''all'', ''teamA'']
     (store_of [] [tagdef_of ''teamA'' [''/bldg1/'']]) =
     (CliPanicked, store_of [] [tagdef_of ''teamA'' [''/bldg1/'']])
   \<and> Run cli_showtagdef Writer [''showtagdef'', ''teamA'', ''all'']
     (store_of [] [tagdef_of ''teamA'' [''/bldg1/'']]) =
     (CliPanicked, (store_of [] [tagdef_of ''teamA'' [''/bldg1/'']])
        \<lparr>calls := [CallRetrieveTagDef ''teamA'']\<rparr>)
   \<and> repl_showtagdef [''showtagdef'', ''all'', ''teamA'']
     (store_of [] [tagdef_of ''teamA'' [''/bldg1/'']]) =
     (Ok, (store_of [] [tagdef_of ''teamA'' [''/bldg1/'']])
        \<lparr>printed := [''all: '' @ ALL_TAG_SYMBOL @ nl]\<rparr>)
   \<and> repl_showtagdef [''showtagdef'', ''teamA'', ''all'']
     (store_of [] [tagdef_of ''teamA'' [''/bldg1/'']]) =
     (Failed NotFound, (store_of [] [tagdef_of ''teamA'' [''/bldg1/'']])
        \<lparr>calls := [CallRetrieveTagDef ''teamA'', CallRetrieveTagDef ''all''],
          printed := [''teamA: /bldg1/'' @ nl]\<rparr>)"
  by (simp add: Run_def cli_showtagdef_def repl_showtagdef_def store_of_def tagdef_of_def
      ALL_TAG_def RetrieveTagDef_def lookup_tagdef_def logged_def Print_def setToSlice_def
      map_range_def written_def writeStringf_def writeString_def Let_def)

section \<open>Permission resolution (ls)\<close>

lemma ls_tags_world:
  "\<exists>n\<le>length (before_all tags).
     snd (ls_tags [] tags prefixes w) =
       w\<lparr>calls := calls w @ map CallRetrieveTagDef (take n (before_all tags))\<rparr>"
proof (induction tags arbitrary: prefixes w)
  case Nil
  then show ?case by simp
next
  case (Cons tag rest)
  show ?case
  proof (cases "tag = ALL_TAG")
    case True
    then show ?thesis by simp
  next
    case False
    obtain r w1 where r: "RetrieveTagDef tag w = (r, w1)" by (cases "RetrieveTagDef tag w")
    then have w1: "w1 = logged (CallRetrieveTagDef tag) w" by (rule RetrieveTagDef_effect)
    show ?thesis
    proof (cases r)
      case (Inl e)
      with False r w1 have "snd (ls_tags [] (tag # rest) prefixes w) =
          w\<lparr>calls := calls w @ map CallRetrieveTagDef (take 1 (before_all (tag # rest)))\<rparr>"
        by (simp add: logged_def)
      moreover have "1 \<le> length (before_all (tag # rest))" using False by simp
      ultimately show ?thesis by blast
    next
      case (Inr d)
      let ?p = "foldl (\<lambda>p pfx. set_put pfx p) prefixes (map_range (PathPrefix d))"
      from Cons.IH[of ?p w1] obtain n where n: "n \<le> length (before_all rest)"
        and w: "snd (ls_tags [] rest ?p w1) =
                  w1\<lparr>calls := calls w1 @ map CallRetrieveTagDef (take n (before_all rest))\<rparr>"
        by blast
      from False r Inr w w1 have "snd (ls_tags [] (tag # rest) prefixes w) =
          w\<lparr>calls := calls w @ map CallRetrieveTagDef (take (Suc n) (before_all (tag # rest)))\<rparr>"
        by (simp add: logged_def)
      moreover have "Suc n \<le> length (before_all (tag # rest))" using False n by simp
      ultimately show ?thesis by blast
    qed
  qed
qed

lemma ls_tags_same_store: "same_store w (snd (ls_tags [] tags prefixes w))"
  using ls_tags_world[of tags prefixes w] by (auto simp: same_store_def)

lemma same_store_trans: "same_store w w1 \<Longrightarrow> same_store w1 w2 \<Longrightarrow> same_store w w2"
  by (simp add: same_store_def)

lemma ls_tags_resolved:
  assumes "\<forall>t\<in>set (before_all tags). \<not> isl (fst (RetrieveTagDef t w))" "same_store w w1"
  shows "calls (snd (ls_tags [] tags prefixes w1)) = calls w1 @ map CallRetrieveTagDef (before_all tags)
         \<and> (ALL_TAG \<in> set tags \<longrightarrow> fst (ls_tags [] tags prefixes w1) = Inr [ALL_TAG_SYMBOL])"
  using assms
proof (induction tags arbitrary: prefixes w1)
  case Nil
  then show ?case by simp
next
  case (Cons tag rest)
  show ?case
  proof (cases "tag = ALL_TAG")
    case True
    then show ?thesis by simp
  next
    case False
    obtain r w2 where r: "RetrieveTagDef tag w1 = (r, w2)" by (cases "RetrieveTagDef tag w1")
    then have w2: "w2 = logged (CallRetrieveTagDef tag) w1" by (rule RetrieveTagDef_effect)
    from r RetrieveTagDef_same_store[OF Cons.prems(2), of tag] Cons.prems(1) False
    have "\<not> isl r" by simp
    then obtain d where d: "r = Inr d" by (cases r) auto
    have "\<forall>t\<in>set (before_all rest). \<not> isl (fst (RetrieveTagDef t w))"
      using Cons.prems(1) False by simp
    moreover have "same_store w w2" using Cons.prems(2) w2 by (simp add: same_store_def logged_def)
    ultimately have "calls (snd (ls_tags [] rest (foldl (\<lambda>p pfx. set_put pfx p) prefixes (map_range (PathPrefix d))) w2))
         = calls w2 @ map CallRetrieveTagDef (before_all rest)
         \<and> (ALL_TAG \<in> set rest \<longrightarrow>
              fst (ls_tags [] rest (foldl (\<lambda>p pfx. set_put pfx p) prefixes (map_range (PathPrefix d))) w2)
                = Inr [ALL_TAG_SYMBOL])"
      by (rule Cons.IH)
    with False r d w2 show ?thesis by simp
  qed
qed

lemma ls_tags_Inl:
  assumes "fst (ls_tags [] tags prefixes w1) = Inl (tag, err)" "same_store w w1"
  shows "fst (RetrieveTagDef tag w) = Inl err \<and> tag \<in> set (before_all tags)"
  using assms
proof (induction tags arbitrary: prefixes w1)
  case Nil
  then show ?case by simp
next
  case (Cons t rest)
  show ?case
  proof (cases "t = ALL_TAG")
    case True
    with Cons.prems show ?thesis by simp
  next
    case False
    obtain r w2 where r: "RetrieveTagDef t w1 = (r, w2)" by (cases "RetrieveTagDef t w1")
    then have w2: "w2 = logged (CallRetrieveTagDef t) w1" by (rule RetrieveTagDef_effect)
    from r RetrieveTagDef_same_store[OF Cons.prems(2), of t]
    have same: "fst (RetrieveTagDef t w) = r" by simp
    show ?thesis
    proof (cases r)
      case (Inl e)
      with False r Cons.prems(1) same show ?thesis by simp
    next
      case (Inr d)
      have "same_store w w2" using Cons.prems(2) w2 by (simp add: same_store_def logged_def)
      moreover from False r Inr Cons.prems(1)
      have "fst (ls_tags [] rest (foldl (\<lambda>p pfx. set_put pfx p) prefixes (map_range (PathPrefix d))) w2)
              = Inl (tag, err)" by simp
      ultimately have "fst (RetrieveTagDef tag w) = Inl err \<and> tag \<in> set (before_all rest)"
        by (intro Cons.IH)
      with False show ?thesis by simp
    qed
  qed
qed

text \<open>
  C4, as the claim states it, fails: for an account whose tags are visited in the order
  \<open>public\<close>, \<open>all\<close>, both \<open>ls\<close> commands look \<open>public\<close> up in the store.
\<close>

theorem ls_looks_up_tags_before_all:
  "new_calls (store_of [account_of ''root'' [''public'', ''all'']] [tagdef_of ''public'' [''/pub/'']])
     (snd (repl_ls [''ls'']
        (store_of [account_of ''root'' [''public'', ''all'']] [tagdef_of ''public'' [''/pub/'']])))
     = [CallRetrieveMultipleAccounts [], CallRetrieveTagDef ''public'']
   \<and> new_calls (store_of [account_of ''root'' [''public'', ''all'']] [tagdef_of ''public'' [''/pub/'']])
     (snd (Run cli_ls Writer [''ls'']
        (store_of [account_of ''root'' [''public'', ''all'']] [tagdef_of ''public'' [''/pub/'']])))
     = [CallRetrieveMultipleAccounts [], CallRetrieveTagDef ''public'']"
  by (simp add: store_of_def account_of_def tagdef_of_def HasPrefix_def ALL_TAG_def
      RetrieveTagDef_def RetrieveMultipleAccounts_def lookup_tagdef_def logged_def
      repl_ls_def cli_ls_def Run_def map_range_def set_put_def written_def writeStringf_def
      writeString_def Println_def Print_def new_calls_def Let_def)

text \<open>
  C4, amended. When the permissions of an account that holds the tag \<open>all\<close> are resolved,
  the store is consulted only for tags that the \<open>range\<close> visits before \<open>all\<close>, in
  their order: there is no lookup of \<open>all\<close> itself nor of any tag visited after it, and
  none at all when \<open>all\<close> is visited first. When every tag visited before \<open>all\<close> is
  found, exactly those tags are looked up and the result is the symbol for all streams
  alone.
\<close>

theorem ls_no_lookup_from_all_on:
  "ALL_TAG \<notin> set before \<longrightarrow>
     (\<exists>n\<le>length before.
        new_calls w (snd (ls_tags [] (before @ ALL_TAG # after) prefixes w))
          = map CallRetrieveTagDef (take n before))
     \<and> new_calls w (snd (ls_tags [] (ALL_TAG # after) prefixes w)) = []
     \<and> ((\<forall>t\<in>set before. \<not> isl (fst (RetrieveTagDef t w))) \<longrightarrow>
          new_calls w (snd (ls_tags [] (before @ ALL_TAG # after) prefixes w))
            = map CallRetrieveTagDef before
          \<and> fst (ls_tags [] (before @ ALL_TAG # after) prefixes w) = Inr [ALL_TAG_SYMBOL])"
proof (intro impI conjI)
  assume nb: "ALL_TAG \<notin> set before"
  then have ba: "before_all (before @ ALL_TAG # after) = before"
    by (induction before) auto
  from ls_tags_world[of "before @ ALL_TAG # after" prefixes w]
  show "\<exists>n\<le>length before.
        new_calls w (snd (ls_tags [] (before @ ALL_TAG # after) prefixes w))
          = map CallRetrieveTagDef (take n before)"
    unfolding ba by (auto simp: new_calls_def)
  show "new_calls w (snd (ls_tags [] (ALL_TAG # after) prefixes w)) = []"
    by (simp add: new_calls_def)
  assume "\<forall>t\<in>set before. \<not> isl (fst (RetrieveTagDef t w))"
  with ls_tags_resolved[of "before @ ALL_TAG # after" w w prefixes]
  have "calls (snd (ls_tags [] (before @ ALL_TAG # after) prefixes w))
          = calls w @ map CallRetrieveTagDef before
        \<and> fst (ls_tags [] (before @ ALL_TAG # after) prefixes w) = Inr [ALL_TAG_SYMBOL]"
    unfolding ba by simp
  then show "new_calls w (snd (ls_tags [] (before @ ALL_TAG # after) prefixes w))
            = map CallRetrieveTagDef before"
    and "fst (ls_tags [] (before @ ALL_TAG # after) prefixes w) = Inr [ALL_TAG_SYMBOL]"
    by (simp_all add: new_calls_def)
qed

theorem ls_no_lookup_from_all_on_witness:
  "ALL_TAG \<notin> set [''public'']
   \<and> \<not> isl (fst (RetrieveTagDef ''public'' (store_of [] [tagdef_of ''public'' [''/pub/'']])))
   \<and> new_calls (store_of [] [tagdef_of ''public'' [''/pub/'']])
        (snd (ls_tags [] [''public'', ''all'', ''teamA''] [] (store_of [] [tagdef_of ''public'' [''/pub/'']])))
       = [CallRetrieveTagDef ''public'']
   \<and> fst (ls_tags [] [''public'', ''all'', ''teamA''] [] (store_of [] [tagdef_of ''public'' [''/pub/'']]))
       = Inr [ALL_TAG_SYMBOL]
   \<and> new_calls (store_of [] [tagdef_of ''public'' [''/pub/'']])
        (snd (ls_tags [] [''all'', ''teamA''] [] (store_of [] [tagdef_of ''public'' [''/pub/'']]))) = []"
  using ls_no_lookup_from_all_on [of "[''public'']" "store_of [] [tagdef_of ''public'' [''/pub/'']]"
      "[''teamA'']" "[]"]
  by (simp add: store_of_def tagdef_of_def ALL_TAG_def RetrieveTagDef_def lookup_tagdef_def Let_def)

text \<open>
  C3 fails on the code. An account holds the tags \<open>ghost\<close>, which no tag definition
  defines, and \<open>all\<close>. When the \<open>range\<close> visits \<open>ghost\<close> first, \<open>ls\<close> ends with the lookup
  error and prints no permissions for the account; when it visits \<open>all\<close> first, it
  prints the symbol for all streams.
\<close>

theorem ls_all_loses_to_unresolved_tag:
  "repl_ls [''ls''] (store_of [account_of ''root'' [''ghost'', ''all'']] []) =
     (Failed (ErrorString (''Could not retrieve tag information for '' @ sq @ ''ghost'' @ sq
                             @ '': '' @ error_text NotFound @ nl)),
      (store_of [account_of ''root'' [''ghost'', ''all'']] [])
        \<lparr>calls := [CallRetrieveMultipleAccounts [], CallRetrieveTagDef ''ghost'']\<rparr>)
   \<and> repl_ls [''ls''] (store_of [account_of ''root'' [''all'', ''ghost'']] []) =
       (Ok, (store_of [account_of ''root'' [''all'', ''ghost'']] [])
          \<lparr>calls := [CallRetrieveMultipleAccounts []],
            printed := [''root: '' @ ALL_TAG_SYMBOL @ nl]\<rparr>)"
  by (simp add: store_of_def account_of_def HasPrefix_def ALL_TAG_def
      RetrieveTagDef_def RetrieveMultipleAccounts_def lookup_tagdef_def logged_def
      repl_ls_def map_range_def setToSlice_def Print_def Let_def)

text \<open>
  C5 fails on the code. The tag cache of \<open>ls\<close> is read and never written, so it stays
  empty: with two accounts that both hold the tag \<open>public\<close>, one \<open>ls\<close> of the second
  REPL looks \<open>public\<close> up twice.
\<close>

theorem ls_looks_up_a_tag_twice:
  "new_calls (store_of [account_of ''alice'' [''public''], account_of ''bob'' [''public'']]
                [tagdef_of ''public'' [''/pub/'']])
     (snd (repl_ls [''ls'']
        (store_of [account_of ''alice'' [''public''], account_of ''bob'' [''public'']]
                [tagdef_of ''public'' [''/pub/'']])))
     = [CallRetrieveMultipleAccounts [], CallRetrieveTagDef ''public'', CallRetrieveTagDef ''public'']"
  by (simp add: store_of_def account_of_def tagdef_of_def HasPrefix_def ALL_TAG_def
      RetrieveTagDef_def RetrieveMultipleAccounts_def lookup_tagdef_def logged_def
      repl_ls_def map_range_def set_put_def Print_def new_calls_def Let_def)

lemma ls_tags_calls: "\<exists>cs. calls (snd (ls_tags [] tags prefixes w)) = calls w @ cs"
  using ls_tags_world[of tags prefixes w] by auto

lemma ls_tags_found:
  assumes "\<not> isl (fst (ls_tags [] tags prefixes w1))" "same_store w w1"
  shows "\<exists>cs. calls (snd (ls_tags [] tags prefixes w1)) = calls w1 @ cs
           \<and> (\<forall>t. CallRetrieveTagDef t \<in> set cs \<longrightarrow> \<not> isl (fst (RetrieveTagDef t w)))"
  using assms
proof (induction tags arbitrary: prefixes w1)
  case Nil
  then show ?case by simp
next
  case (Cons tag rest)
  show ?case
  proof (cases "tag = ALL_TAG")
    case True
    then show ?thesis by simp
  next
    case False
    obtain r w2 where r: "RetrieveTagDef tag w1 = (r, w2)" by (cases "RetrieveTagDef tag w1")
    then have w2: "w2 = logged (CallRetrieveTagDef tag) w1" by (rule RetrieveTagDef_effect)
    from r RetrieveTagDef_same_store[OF Cons.prems(2), of tag]
    have same: "fst (RetrieveTagDef tag w) = r" by simp
    from False r Cons.prems(1) obtain d where d: "r = Inr d" by (cases r) auto
    let ?p = "foldl (\<lambda>p pfx. set_put pfx p) prefixes (map_range (PathPrefix d))"
    have run: "ls_tags [] (tag # rest) prefixes w1 = ls_tags [] rest ?p w2"
      using False r d by simp
    have "same_store w w2" using Cons.prems(2) w2 by (simp add: same_store_def logged_def)
    with Cons.IH[of ?p w2] Cons.prems(1) run
    obtain cs where cs: "calls (snd (ls_tags [] rest ?p w2)) = calls w2 @ cs"
      and ok: "\<forall>t. CallRetrieveTagDef t \<in> set cs \<longrightarrow> \<not> isl (fst (RetrieveTagDef t w))"
      by auto
    from cs w2 run have "calls (snd (ls_tags [] (tag # rest) prefixes w1))
        = calls w1 @ (CallRetrieveTagDef tag # cs)" by simp
    moreover from ok same d
    have "\<forall>t. CallRetrieveTagDef t \<in> set (CallRetrieveTagDef tag # cs)
            \<longrightarrow> \<not> isl (fst (RetrieveTagDef t w))" by auto
    ultimately show ?thesis by blast
  qed
qed

lemma repl_ls_loop_trace:
  assumes "same_store w w1"
  shows "\<exists>cs. calls (snd (repl_ls_loop accs w1)) = calls w1 @ cs
     \<and> ((\<forall>t. CallRetrieveTagDef t \<in> set cs \<longrightarrow> \<not> isl (fst (RetrieveTagDef t w)))
        \<or> (\<exists>tag err. fst (repl_ls_loop accs w1) =
              Failed (ErrorString (''Could not retrieve tag information for '' @ sq @ tag @ sq
                                     @ '': '' @ error_text err @ nl))
            \<and> fst (RetrieveTagDef tag w) = Inl err))"
  using assms
proof (induction accs arbitrary: w1)
  case Nil
  then show ?case by simp
next
  case (Cons a rest)
  show ?case
  proof (cases "Tags a")
    case None
    have "same_store w (Print (Username a @ '' [CORRUPT ENTRY]'' @ nl) w1)"
      using Cons.prems by (simp add: same_store_def Print_def)
    from Cons.IH[OF this] None show ?thesis by simp
  next
    case (Some s')
    obtain r w2 where r: "ls_tags [] (remdups s') [] w1 = (r, w2)"
      by (cases "ls_tags [] (remdups s') [] w1")
    from ls_tags_calls[of "remdups s'" "[]" w1] r
    obtain cs1 where cs1: "calls w2 = calls w1 @ cs1" by auto
    show ?thesis
    proof (cases r)
      case (Inl te)
      obtain tag err where te: "te = (tag, err)" by (cases te)
      with r Inl ls_tags_Inl[of "remdups s'" "[]" w1 tag err w] Cons.prems
      have "fst (RetrieveTagDef tag w) = Inl err" by simp
      moreover from r Inl te Some have "repl_ls_loop (a # rest) w1 =
            (Failed (ErrorString (''Could not retrieve tag information for '' @ sq @ tag @ sq
                                   @ '': '' @ error_text err @ nl)), w2)"
        by (simp add: map_range_def)
      ultimately show ?thesis using cs1 by auto
    next
      case (Inr p)
      let ?w3 = "Print (Username a @ '': '' @ Join (setToSlice (Some p)) '' '' @ nl) w2"
      from ls_tags_found[of "remdups s'" "[]" w1 w] r Inr Cons.prems cs1
      have ok1: "\<forall>t. CallRetrieveTagDef t \<in> set cs1 \<longrightarrow> \<not> isl (fst (RetrieveTagDef t w))"
        by auto
      have "same_store w1 w2" using ls_tags_same_store[of w1 "remdups s'" "[]"] r by simp
      then have "same_store w ?w3" using Cons.prems by (simp add: same_store_def Print_def)
      from Cons.IH[OF this] obtain cs2 where
        cs2: "calls (snd (repl_ls_loop rest ?w3)) = calls ?w3 @ cs2"
        and d: "(\<forall>t. CallRetrieveTagDef t \<in> set cs2 \<longrightarrow> \<not> isl (fst (RetrieveTagDef t w)))
          \<or> (\<exists>tag err. fst (repl_ls_loop rest ?w3) =
              Failed (ErrorString (''Could not retrieve tag information for '' @ sq @ tag @ sq
                                     @ '': '' @ error_text err @ nl))
            \<and> fst (RetrieveTagDef tag w) = Inl err)"
        by blast
      have run: "repl_ls_loop (a # rest) w1 = repl_ls_loop rest ?w3"
        using r Inr Some by (simp add: map_range_def)
      from cs2 cs1 have "calls (snd (repl_ls_loop (a # rest) w1)) = calls w1 @ (cs1 @ cs2)"
        unfolding run by simp
      moreover from d ok1
      have "(\<forall>t. CallRetrieveTagDef t \<in> set (cs1 @ cs2) \<longrightarrow> \<not> isl (fst (RetrieveTagDef t w)))
          \<or> (\<exists>tag err. fst (repl_ls_loop (a # rest) w1) =
              Failed (ErrorString (''Could not retrieve tag information for '' @ sq @ tag @ sq
                                     @ '': '' @ error_text err @ nl))
            \<and> fst (RetrieveTagDef tag w) = Inl err)"
        unfolding run by auto
      ultimately show ?thesis by blast
    qed
  qed
qed

lemma repl_ls_trace:
  assumes "CallRetrieveTagDef t \<in> set (new_calls w (snd (repl_ls tokens w)))"
    "isl (fst (RetrieveTagDef t w))"
  shows "\<exists>tag err. fst (repl_ls tokens w) =
            Failed (ErrorString (''Could not retrieve tag information for '' @ sq @ tag @ sq
                                   @ '': '' @ error_text err @ nl))
          \<and> fst (RetrieveTagDef tag w) = Inl err"
proof -
  let ?pfx = "if length tokens = 2 then tokens ! 1 else []"
  let ?w1 = "logged (CallRetrieveMultipleAccounts ?pfx) w"
  have usage: "\<not> (length tokens \<noteq> 1 \<and> length tokens \<noteq> 2)"
  proof
    assume "length tokens \<noteq> 1 \<and> length tokens \<noteq> 2"
    then have "new_calls w (snd (repl_ls tokens w)) = []"
      by (simp add: repl_ls_def new_calls_def)
    with assms(1) show False by simp
  qed
  obtain r w1 where r: "RetrieveMultipleAccounts ?pfx w = (r, w1)"
    by (cases "RetrieveMultipleAccounts ?pfx w")
  then have w1: "w1 = ?w1"
    by (auto simp: RetrieveMultipleAccounts_def Let_def split: option.splits)
  show ?thesis
  proof (cases r)
    case (Inl e)
    with usage r w1 have "new_calls w (snd (repl_ls tokens w)) = [CallRetrieveMultipleAccounts ?pfx]"
      by (auto simp: repl_ls_def new_calls_def Let_def)
    with assms(1) show ?thesis by simp
  next
    case (Inr accs)
    with usage r w1 have run: "repl_ls tokens w = repl_ls_loop accs ?w1"
      by (auto simp: repl_ls_def Let_def)
    have "same_store w ?w1" by simp
    from repl_ls_loop_trace[OF this, of accs] obtain cs where
      cs: "calls (snd (repl_ls_loop accs ?w1)) = calls ?w1 @ cs"
      and d: "(\<forall>t. CallRetrieveTagDef t \<in> set cs \<longrightarrow> \<not> isl (fst (RetrieveTagDef t w)))
        \<or> (\<exists>tag err. fst (repl_ls_loop accs ?w1) =
              Failed (ErrorString (''Could not retrieve tag information for '' @ sq @ tag @ sq
                                     @ '': '' @ error_text err @ nl))
            \<and> fst (RetrieveTagDef tag w) = Inl err)"
      by blast
    from cs have "new_calls w (snd (repl_ls tokens w)) = CallRetrieveMultipleAccounts ?pfx # cs"
      unfolding run by (simp add: new_calls_def)
    with assms(1) have "CallRetrieveTagDef t \<in> set cs" by simp
    with d assms(2) show ?thesis unfolding run by blast
  qed
qed

text \<open>
  C6 fails on the code of the \<open>cli\<close> package. An account holds the tag \<open>teamB\<close>, which no
  tag definition defines. The \<open>ls\<close> of the second REPL ends at the failed lookup and
  returns the lookup error to its caller, with nothing printed for the account. The
  \<open>ls\<close> of the \<open>cli\<close> package ends there too, but the lookup error reaches nobody: \<open>Run\<close>
  hands \<open>exec\<close> a nil writer, so the write of the error panics.
\<close>

theorem ls_cli_loses_lookup_error:
  "Run cli_ls Writer [''ls''] (store_of [account_of ''alice'' [''teamB'']] []) =
     (CliPanicked, (store_of [account_of ''alice'' [''teamB'']] [])
        \<lparr>calls := [CallRetrieveMultipleAccounts [], CallRetrieveTagDef ''teamB'']\<rparr>)
   \<and> repl_ls [''ls''] (store_of [account_of ''alice'' [''teamB'']] []) =
     (Failed (ErrorString (''Could not retrieve tag information for '' @ sq @ ''teamB'' @ sq
                             @ '': '' @ error_text NotFound @ nl)),
      (store_of [account_of ''alice'' [''teamB'']] [])
        \<lparr>calls := [CallRetrieveMultipleAccounts [], CallRetrieveTagDef ''teamB'']\<rparr>)"
  by (simp add: Run_def cli_ls_def repl_ls_def store_of_def account_of_def HasPrefix_def
      ALL_TAG_def RetrieveTagDef_def RetrieveMultipleAccounts_def lookup_tagdef_def logged_def
      map_range_def written_def writeStringf_def writeString_def Let_def)

section \<open>undeftag\<close>

text \<open>
  C8 fails on the code of the second REPL. Asked to delete the tag \<open>all\<close>, its
  \<open>undeftag\<close> prints that the tag cannot be deleted and then goes on to issue the
  delete for \<open>all\<close> to the store. The \<open>cli\<close> package leaves the loop at \<open>all\<close> and issues
  no call (run with the nil writer of \<open>Run\<close>, it panics at the write of the message).
\<close>

theorem undeftag_all_still_deletes:
  "repl_undeftag [''undeftag'', ''all''] (store_of [] [tagdef_of ''teamA'' [''/bldg1/'']]) =
     (Ok, (store_of [] [tagdef_of ''teamA'' [''/bldg1/'']])
        \<lparr>revision := 2, calls := [CallDeleteTagDef ''all''],
          printed := [''Tag '' @ dq @ ''all'' @ dq @ '' cannot be deleted'' @ nl]\<rparr>)
   \<and> Run cli_undeftag Writer [''undeftag'', ''all''] (store_of [] [tagdef_of ''teamA'' [''/bldg1/'']]) =
     (CliPanicked, store_of [] [tagdef_of ''teamA'' [''/bldg1/'']])"
  by (simp add: repl_undeftag_def cli_undeftag_def Run_def store_of_def tagdef_of_def ALL_TAG_def
      DeleteTagDef_def logged_def written_def writeStringf_def writeString_def Println_def
      Print_def Let_def)


section \<open>The first and the second REPL\<close>

lemma same_effects_refl [simp]: "same_effects w w"
  by (simp add: same_effects_def)

lemma same_effects_prints [simp]:
  "same_effects (Print s w) w' = same_effects w w'" "same_effects w (Print s w') = same_effects w w'"
  "same_effects (Println s w) w' = same_effects w w'" "same_effects w (Println s w') = same_effects w w'"
  by (simp_all add: same_effects_def Print_def Println_def)

lemma same_effects_foldl:
  assumes "\<And>v a. same_effects (f v a) v" "\<And>v a. same_effects (g v a) v"
  shows "same_effects w1 w2 \<Longrightarrow> same_effects (foldl f w1 accs) (foldl g w2 accs)"
proof (induction accs arbitrary: w1 w2)
  case Nil
  then show ?case by simp
next
  case (Cons a accs)
  from assms(1)[of w1 a] assms(2)[of w2 a] Cons.prems
  have "same_effects (f w1 a) (g w2 a)" by (simp add: same_effects_def)
  then show ?case using Cons.IH by simp
qed

lemma revoke_loop_rmtags_loop:
  "PUBLIC_TAG \<notin> set tags \<Longrightarrow> revoke_loop tags m = Some (rmtags_loop tags m)"
  by (induction tags arbitrary: m) (auto simp: PUBLIC_TAG_def)

lemma adduser_agree:
  "same_effects (snd (legacy_adduser tokens w)) (snd (repl_adduser tokens w))
   \<and> same_outcome (fst (legacy_adduser tokens w)) (fst (repl_adduser tokens w))"
proof (cases "length tokens < 3")
  case True
  then show ?thesis by (simp add: legacy_adduser_def repl_adduser_def)
next
  case False
  obtain ok err w' where up: "UpsertAccountAtomically
      (SetPassword (tokens ! 2) \<lparr>Username = tokens ! 1,
         Tags = Some (set_put PUBLIC_TAG (sliceToSet (drop 3 tokens))),
         PasswordHash = Unset, accRevision = 0\<rparr>) w = ((ok, err), w')"
    by (metis surj_pair)
  with False show ?thesis
    by (cases err)
      (simp_all add: legacy_adduser_def repl_adduser_def PUBLIC_TAG_def returned_def
        errorTxFail_def errorAlreadyExists_def)
qed

lemma setpassword_agree:
  "same_effects (snd (legacy_setpassword tokens w)) (snd (repl_setpassword tokens w))
   \<and> fst (legacy_setpassword tokens w) = fst (repl_setpassword tokens w)"
  by (cases "length tokens \<noteq> 3") (simp_all add: legacy_setpassword_def repl_setpassword_def)

lemma rmusers_agree:
  "same_effects (snd (legacy_rmusers tokens w)) (snd (repl_rmusers tokens w))
   \<and> fst (legacy_rmusers tokens w) = fst (repl_rmusers tokens w)"
  by (cases "length tokens \<noteq> 2") (simp_all add: legacy_rmusers_def repl_rmusers_def)

lemma grant_agree:
  "same_effects (snd (legacy_addtags tokens w)) (snd (repl_grant tokens w))
   \<and> fst (legacy_addtags tokens w) = fst (repl_grant tokens w)"
  by (cases "length tokens < 3") (simp_all add: legacy_addtags_def repl_grant_def)

lemma rmuser_agree:
  assumes "length tokens \<le> 2"
  shows "same_effects (snd (legacy_rmuser tokens w)) (snd (repl_rmuser tokens w))
   \<and> fst (legacy_rmuser tokens w) = fst (repl_rmuser tokens w)"
proof (cases "length tokens = 2")
  case True
  then obtain c u where tk: "tokens = [c, u]"
    by (cases tokens; cases "tl tokens"; cases "tl (tl tokens)") auto
  obtain err w' where d: "DeleteAccount u w = (err, w')" by (cases "DeleteAccount u w")
  with tk show ?thesis
    by (cases err) (simp_all add: legacy_rmuser_def repl_rmuser_def returned_def)
next
  case False
  with assms have "length tokens < 2" by simp
  then show ?thesis by (simp add: legacy_rmuser_def repl_rmuser_def)
qed

lemma revoke_agree:
  assumes "PUBLIC_TAG \<notin> set (drop 2 tokens)"
  shows "same_effects (snd (legacy_rmtags tokens w)) (snd (repl_revoke tokens w))
   \<and> fst (legacy_rmtags tokens w) = fst (repl_revoke tokens w)"
proof (cases "length tokens < 3")
  case True
  then show ?thesis by (simp add: legacy_rmtags_def repl_revoke_def)
next
  case False
  obtain r w1 where r: "RetrieveAccount (tokens ! 1) w = (r, w1)"
    by (cases "RetrieveAccount (tokens ! 1) w")
  with False assms show ?thesis
    by (cases r) (simp_all add: legacy_rmtags_def repl_revoke_def revoke_loop_rmtags_loop)
qed

lemma lsusers_listed:
  assumes "length tokens = 1 \<or> length tokens = 2"
    and "RetrieveMultipleAccounts (if length tokens = 2 then tokens ! 1 else []) w = (r, w1)"
  shows "same_effects (snd (legacy_lsusers tokens w)) (snd (repl_lsusers tokens w))
   \<and> fst (legacy_lsusers tokens w) = fst (repl_lsusers tokens w)"
proof (cases r)
  case (Inl e)
  with assms show ?thesis by (auto simp: legacy_lsusers_def repl_lsusers_def)
next
  case (Inr accs)
  have "same_effects
      (foldl (\<lambda>w acc. if Tags acc = None then Print (Username acc @ '' [CORRUPT ENTRY]'' @ nl) w
                       else Println (Username acc) w) w1 accs)
      (foldl (\<lambda>w acc. if Tags acc = None then Print (Username acc @ '' [CORRUPT ENTRY]'' @ nl) w
                       else Print (Username acc @ '': '' @ Join (setToSlice (Tags acc)) '' '' @ nl) w)
         w1 accs)"
    by (rule same_effects_foldl) simp_all
  with assms Inr show ?thesis by (auto simp: legacy_lsusers_def repl_lsusers_def)
qed

lemma lsusers_agree:
  "same_effects (snd (legacy_lsusers tokens w)) (snd (repl_lsusers tokens w))
   \<and> fst (legacy_lsusers tokens w) = fst (repl_lsusers tokens w)"
proof (cases "length tokens = 1 \<or> length tokens = 2")
  case True
  then show ?thesis
    using lsusers_listed[of tokens w] by (metis surj_pair)
next
  case False
  then show ?thesis by (simp add: legacy_lsusers_def repl_lsusers_def)
qed

text \<open>
  C9, as the claim states it, fails: \<open>rmuser\<close> is in both tables, and given two usernames
  the first REPL prints its usage and calls nothing, while the second REPL deletes both
  accounts.
\<close>

theorem rmuser_tables_differ:
  "legacy_rmuser [''rmuser'', ''alice'', ''bob'']
     (store_of [account_of ''alice'' [''public''], account_of ''bob'' [''public'']] []) =
     (Ok, (store_of [account_of ''alice'' [''public''], account_of ''bob'' [''public'']] [])
        \<lparr>printed := [''Usage: rmuser username'' @ nl]\<rparr>)
   \<and> repl_rmuser [''rmuser'', ''alice'', ''bob'']
     (store_of [account_of ''alice'' [''public''], account_of ''bob'' [''public'']] []) =
     (Ok, (store_of [account_of ''alice'' [''public''], account_of ''bob'' [''public'']] [])
        \<lparr>accts := [], revision := 3,
          calls := [CallDeleteAccount ''alice'', CallDeleteAccount ''bob'']\<rparr>)"
  by (simp add: legacy_rmuser_def repl_rmuser_def store_of_def account_of_def DeleteAccount_def
      logged_def Println_def Print_def Let_def)

text \<open>
  C9, amended. On the same arguments and the same store, the first REPL (\<open>main.go\<close>) and
  the second REPL make the same calls, leave the same store and end alike (both with
  success, both with an error, both with a panic) for \<open>adduser\<close>, \<open>setpassword\<close>,
  \<open>rmusers\<close>, \<open>addtags\<close>/\<open>grant\<close> and \<open>lsusers\<close>, for \<open>rmuser\<close> with at most one username,
  and for \<open>rmtags\<close>/\<open>revoke\<close> when \<open>public\<close> is not among the tags to take away. Apart
  from \<open>adduser\<close>, whose error after a write that did not commit has another text, they
  return the same error. What they print is not compared: usage texts and the lines of
  \<open>lsusers\<close> differ. The two \<open>ls\<close> commands, \<open>rmuser\<close> with several usernames and
  \<open>rmtags\<close>/\<open>revoke\<close> of \<open>public\<close> are not equivalent.
\<close>

theorem repl_tables_agree:
  "same_effects (snd (legacy_adduser tokens w)) (snd (repl_adduser tokens w))
   \<and> same_outcome (fst (legacy_adduser tokens w)) (fst (repl_adduser tokens w))
   \<and> same_effects (snd (legacy_setpassword tokens w)) (snd (repl_setpassword tokens w))
   \<and> fst (legacy_setpassword tokens w) = fst (repl_setpassword tokens w)
   \<and> same_effects (snd (legacy_rmusers tokens w)) (snd (repl_rmusers tokens w))
   \<and> fst (legacy_rmusers tokens w) = fst (repl_rmusers tokens w)
   \<and> same_effects (snd (legacy_addtags tokens w)) (snd (repl_grant tokens w))
   \<and> fst (legacy_addtags tokens w) = fst (repl_grant tokens w)
   \<and> same_effects (snd (legacy_lsusers tokens w)) (snd (repl_lsusers tokens w))
   \<and> fst (legacy_lsusers tokens w) = fst (repl_lsusers tokens w)
   \<and> (length rmuser_tokens \<le> 2 \<longrightarrow>
        same_effects (snd (legacy_rmuser rmuser_tokens w)) (snd (repl_rmuser rmuser_tokens w))
        \<and> fst (legacy_rmuser rmuser_tokens w) = fst (repl_rmuser rmuser_tokens w))
   \<and> (PUBLIC_TAG \<notin> set (drop 2 revoke_tokens) \<longrightarrow>
        same_effects (snd (legacy_rmtags revoke_tokens w)) (snd (repl_revoke revoke_tokens w))
        \<and> fst (legacy_rmtags revoke_tokens w) = fst (repl_revoke revoke_tokens w))"
  using adduser_agree[of tokens w] setpassword_agree[of tokens w] rmusers_agree[of tokens w]
    grant_agree[of tokens w] lsusers_agree[of tokens w] rmuser_agree[of rmuser_tokens w]
    revoke_agree[of revoke_tokens w]
  by blast
theorem repl_tables_agree_witness:
  "length [''rmuser'', ''alice''] \<le> 2
   \<and> PUBLIC_TAG \<notin> set (drop 2 [''revoke'', ''alice'', ''teamA''])
   \<and> same_effects
        (snd (legacy_rmuser [''rmuser'', ''alice''] (store_of [account_of ''alice'' [''teamA'', ''public'']] [])))
        (snd (repl_rmuser [''rmuser'', ''alice''] (store_of [account_of ''alice'' [''teamA'', ''public'']] [])))
   \<and> fst (legacy_rmuser [''rmuser'', ''alice''] (store_of [account_of ''alice'' [''teamA'', ''public'']] []))
       = fst (repl_rmuser [''rmuser'', ''alice''] (store_of [account_of ''alice'' [''teamA'', ''public'']] []))
   \<and> same_effects
        (snd (legacy_rmtags [''revoke'', ''alice'', ''teamA'']
           (store_of [account_of ''alice'' [''teamA'', ''public'']] [])))
        (snd (repl_revoke [''revoke'', ''alice'', ''teamA'']
           (store_of [account_of ''alice'' [''teamA'', ''public'']] [])))
   \<and> fst (legacy_rmtags [''revoke'', ''alice'', ''teamA'']
           (store_of [account_of ''alice'' [''teamA'', ''public'']] []))
       = fst (repl_revoke [''revoke'', ''alice'', ''teamA'']
           (store_of [account_of ''alice'' [''teamA'', ''public'']] []))
   \<and> accts (snd (repl_revoke [''revoke'', ''alice'', ''teamA'']
           (store_of [account_of ''alice'' [''teamA'', ''public'']] [])))
       = [(account_of ''alice'' [''public''])\<lparr>accRevision := 2\<rparr>]"
  using repl_tables_agree [of "[''adduser'', ''bob'', ''pw2'']"
      "store_of [account_of ''alice'' [''teamA'', ''public'']] []"
      "[''rmuser'', ''alice'']" "[''revoke'', ''alice'', ''teamA'']"]
  by (simp add: PUBLIC_TAG_def repl_revoke_def store_of_def account_of_def RetrieveAccount_def
      UpsertAccountAtomically_def lookup_account_def logged_def map_has_def map_delete_def Let_def)

end
